theory Spec2Isabelle
  imports Main "HOL-Library.AList"
begin

section \<open>Characters and strings\<close>

text \<open>
  A JavaScript string is a sequence of UTF-16 code units.  The model uses \<open>string\<close>
  (\<open>char list\<close>), that is the code units below 256; on that range the character classes
  below are the ones ECMAScript defines.  \<open>\s\<close> and \<open>trim\<close> use the same set (white space
  and line terminators): TAB, LF, VT, FF, CR, SPACE and NBSP.  The dot excludes the line
  terminators LF and CR.
\<close>

definition code :: "char \<Rightarrow> nat" where
  "code c = of_char c"

definition isSpace :: "char \<Rightarrow> bool" where
  "isSpace c = (code c \<in> {9, 10, 11, 12, 13, 32, 160})"

definition isDigit :: "char \<Rightarrow> bool" where
  "isDigit c = (48 \<le> code c \<and> code c \<le> 57)"

definition isNameStart :: "char \<Rightarrow> bool" where
  "isNameStart c = (97 \<le> code c \<and> code c \<le> 122 \<or> 65 \<le> code c \<and> code c \<le> 90 \<or> c = CHR ''_'')"

definition isNameChar :: "char \<Rightarrow> bool" where
  "isNameChar c = (97 \<le> code c \<and> code c \<le> 122 \<or> 65 \<le> code c \<and> code c \<le> 90 \<or>
                   48 \<le> code c \<and> code c \<le> 57 \<or> c = CHR ''_'' \<or> c = CHR ''-'')"

definition isDot :: "char \<Rightarrow> bool" where
  "isDot c = (c \<noteq> CHR 0x0A \<and> c \<noteq> CHR 0x0D)"

definition isChar :: "char \<Rightarrow> char \<Rightarrow> bool" where
  "isChar a c = (c = a)"

definition notChar :: "char \<Rightarrow> char \<Rightarrow> bool" where
  "notChar a c = (c \<noteq> a)"

definition trimStart :: "string \<Rightarrow> string" where
  "trimStart s = dropWhile isSpace s"

definition trimEnd :: "string \<Rightarrow> string" where
  "trimEnd s = rev (dropWhile isSpace (rev s))"

definition trim :: "string \<Rightarrow> string" where
  "trim s = trimEnd (trimStart s)"

fun join :: "string \<Rightarrow> string list \<Rightarrow> string" where
  "join sep [] = []"
| "join sep [x] = x"
| "join sep (x # y # ys) = x @ sep @ join sep (y # ys)"

definition repeat :: "string \<Rightarrow> nat \<Rightarrow> string" where
  "repeat s n = concat (replicate n s)"

section \<open>Regular expressions with backtracking\<close>

text \<open>
  The source is written with JavaScript regular expressions.  They are embedded as syntax
  trees and run by a backtracking matcher that returns every way to match in the order in
  which the ECMAScript matcher tries them, so that the head of the list is the match the
  engine reports: greedy quantifiers try the longest repetition first, lazy ones the
  shortest, alternatives go left to right.  A matcher state is the number of code units
  before the current position, the rest of the input, and the captures made so far (most
  recent first).
\<close>

type_synonym caps = "(nat \<times> string) list"
type_synonym mstate = "nat \<times> string \<times> caps"

datatype re =
    Eps
  | Cls "char \<Rightarrow> bool"
  | Seq re re
  | Alt re re
  | Star re
  | LazyStar re
  | Grp nat re
  | Bref nat
  | Bol
  | Eol

fun ms :: "re \<Rightarrow> mstate \<Rightarrow> mstate list" where
  "ms Eps st = [st]"
| "ms (Cls p) (n, s, cs) = (case s of [] \<Rightarrow> [] | c # t \<Rightarrow> if p c then [(Suc n, t, cs)] else [])"
| "ms (Seq a b) st = concat (map (ms b) (ms a st))"
| "ms (Alt a b) st = ms a st @ ms b st"
| "ms (Star a) (n, s, cs) =
     concat (map (\<lambda>(n', s', cs'). if length s' < length s then ms (Star a) (n', s', cs') else [])
                 (ms a (n, s, cs))) @ [(n, s, cs)]"
| "ms (LazyStar a) (n, s, cs) =
     (n, s, cs) #
     concat (map (\<lambda>(n', s', cs'). if length s' < length s then ms (LazyStar a) (n', s', cs') else [])
                 (ms a (n, s, cs)))"
| "ms (Grp k a) (n, s, cs) =
     map (\<lambda>(n', s', cs'). (n', s', (k, take (n' - n) s) # cs')) (ms a (n, s, cs))"
| "ms (Bref k) (n, s, cs) =
     (case map_of cs k of
        None \<Rightarrow> [(n, s, cs)]
      | Some w \<Rightarrow> if take (length w) s = w then [(n + length w, drop (length w) s, cs)] else [])"
| "ms Bol (n, s, cs) = (if n = 0 then [(n, s, cs)] else [])"
| "ms Eol (n, s, cs) = (if s = [] then [(n, s, cs)] else [])"

text \<open>The derived forms: \<open>r+\<close>, \<open>r+?\<close>, \<open>r?\<close>, \<open>r{k}\<close>, \<open>r{k,}\<close>, \<open>r{1,k}\<close> and a literal.\<close>

definition Plus :: "re \<Rightarrow> re" where
  "Plus r = Seq r (Star r)"

definition LazyPlus :: "re \<Rightarrow> re" where
  "LazyPlus r = Seq r (LazyStar r)"

definition Opt :: "re \<Rightarrow> re" where
  "Opt r = Alt r Eps"

fun Rep :: "nat \<Rightarrow> re \<Rightarrow> re" where
  "Rep 0 r = Eps"
| "Rep (Suc k) r = Seq r (Rep k r)"

definition RepMin :: "nat \<Rightarrow> re \<Rightarrow> re" where
  "RepMin k r = Seq (Rep k r) (Star r)"

fun RepUpTo :: "nat \<Rightarrow> re \<Rightarrow> re" where
  "RepUpTo 0 r = Eps"
| "RepUpTo (Suc k) r = Opt (Seq r (RepUpTo k r))"

fun Lit :: "string \<Rightarrow> re" where
  "Lit [] = Eps"
| "Lit (c # cs) = Seq (Cls (isChar c)) (Lit cs)"

text \<open>
  A match as \<open>RegExp.prototype.exec\<close> returns it: the index where it starts, the matched
  text, and the captures (a group that did not take part is absent, JavaScript's
  \<open>undefined\<close>).
\<close>

record jsmatch =
  m_index :: nat
  m_text :: string
  m_caps :: caps

definition cap :: "jsmatch \<Rightarrow> nat \<Rightarrow> string option" where
  "cap m k = map_of (m_caps m) k"

text \<open>\<open>x || ''\<close> on a capture: \<open>undefined\<close> and the empty string are both falsy.\<close>

definition capOr :: "jsmatch \<Rightarrow> nat \<Rightarrow> string" where
  "capOr m k = (case cap m k of None \<Rightarrow> [] | Some w \<Rightarrow> w)"

definition execAt :: "re \<Rightarrow> nat \<Rightarrow> string \<Rightarrow> jsmatch option" where
  "execAt r n s =
     (case ms r (n, s, []) of
        [] \<Rightarrow> None
      | (n', s', cs) # _ \<Rightarrow> Some \<lparr>m_index = n, m_text = take (n' - n) s, m_caps = cs\<rparr>)"

text \<open>
  \<open>search r n s\<close> is the leftmost match in the input whose part from position \<open>n\<close> on is
  \<open>s\<close>: \<open>str.match(r)\<close> and \<open>r.test(str)\<close> for a regular expression without the \<open>g\<close> flag
  are \<open>search r 0 str\<close>.
\<close>

fun search :: "re \<Rightarrow> nat \<Rightarrow> string \<Rightarrow> jsmatch option" where
  "search r n [] = execAt r n []"
| "search r n (c # t) =
     (case execAt r n (c # t) of
        Some m \<Rightarrow> Some m
      | None \<Rightarrow> search r (Suc n) t)"

definition match :: "re \<Rightarrow> string \<Rightarrow> jsmatch option" where
  "match r s = search r 0 s"

definition test :: "re \<Rightarrow> string \<Rightarrow> bool" where
  "test r s = (match r s \<noteq> None)"

text \<open>
  \<open>scan r n s\<close> lists the successive matches of a regular expression with the \<open>g\<close> flag,
  as \<open>replace\<close> and a \<open>while ((m = r.exec(str)) !== null)\<close> loop find them: each search
  starts where the previous match ended, one further after an empty match.  (After an
  empty match an \<open>exec\<close> loop would not advance; none of the expressions the source runs in
  such a loop matches the empty string, since each starts with the literal \<open><\<close> or a name
  character.)
\<close>

function scan :: "re \<Rightarrow> nat \<Rightarrow> string \<Rightarrow> jsmatch list" where
  "scan r n [] = (case execAt r n [] of None \<Rightarrow> [] | Some m \<Rightarrow> [m])"
| "scan r n (c # t) =
     (case execAt r n (c # t) of
        None \<Rightarrow> scan r (Suc n) t
      | Some m \<Rightarrow>
          (if length (m_text m) = 0 then m # scan r (Suc n) t
           else m # scan r (n + length (m_text m)) (drop (length (m_text m)) (c # t))))"
  by pat_completeness auto
termination
  by (relation "measure (\<lambda>(r, n, s). length s)") auto

text \<open>
  \<open>substitute n s ms\<close> rebuilds the input (whose part from position \<open>n\<close> on is \<open>s\<close>) with
  each match replaced by the text paired with it, as \<open>String.prototype.replace\<close> does.
\<close>

fun substitute :: "nat \<Rightarrow> string \<Rightarrow> (jsmatch \<times> string) list \<Rightarrow> string" where
  "substitute n s [] = s"
| "substitute n s ((m, new) # rest) =
     take (m_index m - n) s @ new @
     substitute (m_index m + length (m_text m))
                (drop (m_index m + length (m_text m) - n) s) rest"

definition replaceAll :: "re \<Rightarrow> (jsmatch \<Rightarrow> string) \<Rightarrow> string \<Rightarrow> string" where
  "replaceAll r f s = substitute 0 s (map (\<lambda>m. (m, f m)) (scan r 0 s))"

text \<open>\<open>str.split(/\r?\n/)\<close>: the pieces between the successive matches.\<close>

fun pieces :: "nat \<Rightarrow> string \<Rightarrow> jsmatch list \<Rightarrow> string list" where
  "pieces n s [] = [s]"
| "pieces n s (m # rest) =
     take (m_index m - n) s #
     pieces (m_index m + length (m_text m)) (drop (m_index m + length (m_text m) - n) s) rest"

definition lineBreak :: re where
  "lineBreak = Seq (Opt (Cls (isChar (CHR 0x0D)))) (Cls (isChar (CHR 0x0A)))"

definition splitLines :: "string \<Rightarrow> string list" where
  "splitLines s = pieces 0 s (scan lineBreak 0 s)"

text \<open>Decimal numerals: the \<open>${index}\<close> of a template string, and \<open>parseInt\<close> on digits.\<close>

definition digitChar :: "nat \<Rightarrow> char" where
  "digitChar d = char_of (48 + d)"

function showNat :: "nat \<Rightarrow> string" where
  "showNat n = (if n < 10 then [digitChar n] else showNat (n div 10) @ [digitChar (n mod 10)])"
  by pat_completeness auto
termination
  by (relation "measure id") auto

definition parseInt :: "string \<Rightarrow> nat" where
  "parseInt ds = foldl (\<lambda>a c. 10 * a + (code c - 48)) 0 ds"

section \<open>Masking inline code\<close>

text \<open>
  \<open>maskCodeContent\<close> replaces first the spans \<open>/(`{2,})([^`]+?)\1/g\<close> and then the spans
  \<open>/`([^`]+)`/g\<close> by \<open>\x00CODEk\x00\<close>, where \<open>k\<close> is the number of spans stored before it.
\<close>

definition multiTickRe :: re where
  "multiTickRe = Seq (Grp 1 (RepMin 2 (Cls (isChar CHR ''`''))))
                     (Seq (Grp 2 (LazyPlus (Cls (notChar CHR ''`'')))) (Bref 1))"

definition singleTickRe :: re where
  "singleTickRe = Seq (Cls (isChar CHR ''`''))
                      (Seq (Grp 1 (Plus (Cls (notChar CHR ''`'')))) (Cls (isChar CHR ''`'')))"

definition placeholder :: "nat \<Rightarrow> string" where
  "placeholder k = CHR 0x00 # ''CODE'' @ showNat k @ [CHR 0x00]"

text \<open>
  One \<open>masked.replace(re, callback)\<close>: the callback of the \<open>k\<close>-th match (from 0) sees
  \<open>codeBlocks.length\<close> grown by \<open>k\<close>, stores the match and returns the placeholder.
\<close>

definition maskPass :: "re \<Rightarrow> string \<times> string list \<Rightarrow> string \<times> string list" where
  "maskPass r = (\<lambda>(masked, codeBlocks).
     let found = scan r 0 masked;
         news = map (\<lambda>k. placeholder (length codeBlocks + k)) [0..<length found]
     in (substitute 0 masked (zip found news), codeBlocks @ map m_text found))"

definition maskCodeContent :: "string \<Rightarrow> string \<times> string list" where
  "maskCodeContent text' = maskPass singleTickRe (maskPass multiTickRe (text', []))"

definition placeholderRe :: re where
  "placeholderRe = Seq (Cls (isChar (CHR 0x00))) (Seq (Lit ''CODE'')
                     (Seq (Grp 1 (Plus (Cls isDigit))) (Cls (isChar (CHR 0x00)))))"

text \<open>
  \<open>codeBlocks[parseInt(index)]\<close> is \<open>undefined\<close> out of range, which \<open>replace\<close> inserts as
  the text \<open>undefined\<close>.
\<close>

definition unmaskCodeContent :: "string \<Rightarrow> string list \<Rightarrow> string" where
  "unmaskCodeContent text' codeBlocks =
     replaceAll placeholderRe
       (\<lambda>m. let k = parseInt (capOr m 1)
            in if k < length codeBlocks then codeBlocks ! k else ''undefined'')
       text'"

section \<open>The document structure extractor\<close>

text \<open>
  \<open>XmlTag\<close>, \<open>MarkdownHeader\<close> and \<open>DocumentStructure\<close>.  The attributes are a JavaScript
  \<open>Map\<close>: an association list in insertion order, where setting a key that is present
  replaces its value in place (\<open>AList.update\<close>).  The interface \<open>XmlTag\<close> of
  \<open>src/extension.ts\<close> has the first seven fields; the one of the file with
  \<open>parseDocumentText\<close> adds \<open>startIndex\<close> and \<open>endIndex\<close> (\<open>XmlTagSpan\<close> here).
\<close>

record XmlTag =
  name :: string
  line :: nat
  indent :: nat
  isOpening :: bool
  isClosing :: bool
  isSelfClosing :: bool
  attributes :: "(string \<times> string) list"

record XmlTagSpan = XmlTag +
  startIndex :: nat
  endIndex :: nat

record MarkdownHeader =
  level :: nat
  hline :: nat
  htext :: string

record 'tag DocumentStructure =
  xmlTags :: "'tag list"
  headers :: "MarkdownHeader list"
  horizontalRules :: "nat list"

definition RepRange :: "nat \<Rightarrow> nat \<Rightarrow> re \<Rightarrow> re" where
  "RepRange lo hi r = Seq (Rep lo r) (RepUpTo (hi - lo) r)"

definition isRuleChar :: "char \<Rightarrow> bool" where
  "isRuleChar c = (c = CHR ''-'' \<or> c = CHR ''*'' \<or> c = CHR ''_'')"

text \<open>\<open>/^(\s*)(`{3,}|~{3,})/\<close>\<close>

definition codeBlockRegex :: re where
  "codeBlockRegex =
     Seq Bol (Seq (Grp 1 (Star (Cls isSpace)))
       (Grp 2 (Alt (RepMin 3 (Cls (isChar CHR ''`''))) (RepMin 3 (Cls (isChar CHR ''~''))))))"

text \<open>\<open>/^(#{1,6})\s+(.+?)\s*$/\<close>\<close>

definition headerRegex :: re where
  "headerRegex =
     Seq Bol (Seq (Grp 1 (RepRange 1 6 (Cls (isChar CHR ''#''))))
       (Seq (Plus (Cls isSpace)) (Seq (Grp 2 (LazyPlus (Cls isDot)))
         (Seq (Star (Cls isSpace)) Eol))))"

text \<open>\<open>/^\s*([-*_]){3,}\s*$/\<close>\<close>

definition horizontalRuleRegex :: re where
  "horizontalRuleRegex =
     Seq Bol (Seq (Star (Cls isSpace)) (Seq (RepMin 3 (Grp 1 (Cls isRuleChar)))
       (Seq (Star (Cls isSpace)) Eol)))"

text \<open>The tag name \<open>[a-zA-Z_][a-zA-Z0-9_-]*\<close> and the attribute region \<open>(\s+[^>]*)?\<close>.\<close>

definition nameRe :: re where
  "nameRe = Seq (Cls isNameStart) (Star (Cls isNameChar))"

definition attrRegionRe :: re where
  "attrRegionRe = Seq (Plus (Cls isSpace)) (Star (Cls (notChar CHR ''>'')))"

text \<open>\<open>/<([a-zA-Z_][a-zA-Z0-9_-]*)(\s+[^>]*)?\s*>/g\<close>\<close>

definition xmlOpeningTagRegex :: re where
  "xmlOpeningTagRegex =
     Seq (Cls (isChar CHR ''<'')) (Seq (Grp 1 nameRe) (Seq (Opt (Grp 2 attrRegionRe))
       (Seq (Star (Cls isSpace)) (Cls (isChar CHR ''>'')))))"

text \<open>\<open>/<\/([a-zA-Z_][a-zA-Z0-9_-]*)>/g\<close>\<close>

definition xmlClosingTagRegex :: re where
  "xmlClosingTagRegex =
     Seq (Cls (isChar CHR ''<'')) (Seq (Cls (isChar CHR ''/''))
       (Seq (Grp 1 nameRe) (Cls (isChar CHR ''>''))))"

text \<open>\<open>/<([a-zA-Z_][a-zA-Z0-9_-]*)(\s+[^>]*)?\s*\/>/g\<close>\<close>

definition xmlSelfClosingRegex :: re where
  "xmlSelfClosingRegex =
     Seq (Cls (isChar CHR ''<'')) (Seq (Grp 1 nameRe) (Seq (Opt (Grp 2 attrRegionRe))
       (Seq (Star (Cls isSpace)) (Seq (Cls (isChar CHR ''/'')) (Cls (isChar CHR ''>''))))))"

text \<open>\<open>/([a-zA-Z_][a-zA-Z0-9_-]*)\s*=\s*(?:"([^"]*)"|'([^']*)'|([^\s>]+))/g\<close>\<close>

definition attrRegex :: re where
  "attrRegex =
     Seq (Grp 1 nameRe) (Seq (Star (Cls isSpace)) (Seq (Cls (isChar CHR ''=''))
       (Seq (Star (Cls isSpace))
         (Alt (Seq (Cls (isChar CHR 0x22))
                 (Seq (Grp 2 (Star (Cls (notChar (CHR 0x22))))) (Cls (isChar CHR 0x22))))
         (Alt (Seq (Cls (isChar CHR 0x27))
                 (Seq (Grp 3 (Star (Cls (notChar (CHR 0x27))))) (Cls (isChar CHR 0x27))))
              (Grp 4 (Plus (Cls (\<lambda>c. \<not> isSpace c \<and> c \<noteq> CHR ''>'')))))))))"

text \<open>
  \<open>attributes.set(match[1], match[2] || match[3] || match[4] || '')\<close>, for each match in
  turn.
\<close>

definition attrValue :: "jsmatch \<Rightarrow> string" where
  "attrValue m =
     (if capOr m 2 \<noteq> [] then capOr m 2
      else if capOr m 3 \<noteq> [] then capOr m 3
      else capOr m 4)"

definition parseAttributes :: "string \<Rightarrow> (string \<times> string) list" where
  "parseAttributes attrString =
     foldl (\<lambda>attrs m. AList.update (capOr m 1) (attrValue m) attrs) [] (scan attrRegex 0 attrString)"

text \<open>The tags of one line outside code blocks (the three \<open>exec\<close> loops of the loop body).\<close>

definition selfClosingTag :: "nat \<Rightarrow> nat \<Rightarrow> jsmatch \<Rightarrow> XmlTagSpan" where
  "selfClosingTag i ind m =
     \<lparr>name = capOr m 1, line = i, indent = ind, isOpening = False, isClosing = False,
      isSelfClosing = True, attributes = parseAttributes (capOr m 2),
      startIndex = m_index m, endIndex = m_index m + length (m_text m)\<rparr>"

definition closingTag :: "nat \<Rightarrow> nat \<Rightarrow> jsmatch \<Rightarrow> XmlTagSpan" where
  "closingTag i ind m =
     \<lparr>name = capOr m 1, line = i, indent = ind, isOpening = False, isClosing = True,
      isSelfClosing = False, attributes = [],
      startIndex = m_index m, endIndex = m_index m + length (m_text m)\<rparr>"

definition openingTag :: "nat \<Rightarrow> nat \<Rightarrow> jsmatch \<Rightarrow> XmlTagSpan" where
  "openingTag i ind m =
     \<lparr>name = capOr m 1, line = i, indent = ind, isOpening = True, isClosing = False,
      isSelfClosing = False, attributes = parseAttributes (capOr m 2),
      startIndex = m_index m, endIndex = m_index m + length (m_text m)\<rparr>"

definition lineTags :: "nat \<Rightarrow> string \<Rightarrow> XmlTagSpan list" where
  "lineTags i line' =
     (let ind = length line' - length (trimStart line');
          masked = fst (maskCodeContent line');
          maskedWithoutSelfClosing =
            replaceAll xmlSelfClosingRegex (\<lambda>m. replicate (length (m_text m)) CHR '' '') masked
      in map (selfClosingTag i ind) (scan xmlSelfClosingRegex 0 masked) @
         map (closingTag i ind) (scan xmlClosingTagRegex 0 masked) @
         map (openingTag i ind) (scan xmlOpeningTagRegex 0 maskedWithoutSelfClosing))"

definition lineHeaders :: "nat \<Rightarrow> string \<Rightarrow> MarkdownHeader list" where
  "lineHeaders i line' =
     (case match headerRegex line' of
        None \<Rightarrow> []
      | Some m \<Rightarrow> [\<lparr>level = length (capOr m 1), hline = i, htext = capOr m 2\<rparr>])"

text \<open>
  The loop of \<open>parseDocumentText\<close> from line \<open>i\<close> on: \<open>inCodeBlock\<close> is the loop's flag and
  \<open>acc\<close> holds the three arrays being filled.
\<close>

fun parseLines ::
  "nat \<Rightarrow> bool \<Rightarrow> string list \<Rightarrow> XmlTagSpan DocumentStructure \<Rightarrow> XmlTagSpan DocumentStructure" where
  "parseLines i inCodeBlock [] acc = acc"
| "parseLines i inCodeBlock (line' # rest) acc =
     (if match codeBlockRegex line' \<noteq> None then parseLines (Suc i) (\<not> inCodeBlock) rest acc
      else if inCodeBlock then parseLines (Suc i) inCodeBlock rest acc
      else if test horizontalRuleRegex line' then
        parseLines (Suc i) inCodeBlock rest
          (acc\<lparr>horizontalRules := horizontalRules acc @ [i]\<rparr>)
      else
        parseLines (Suc i) inCodeBlock rest
          (acc\<lparr>headers := headers acc @ lineHeaders i line',
               xmlTags := xmlTags acc @ lineTags i line'\<rparr>))"

definition parseDocumentText :: "string \<Rightarrow> XmlTagSpan DocumentStructure" where
  "parseDocumentText text' =
     parseLines 0 False (splitLines text') \<lparr>xmlTags = [], headers = [], horizontalRules = []\<rparr>"

section \<open>The Markdown transformer\<close>

subsection \<open>Tag depth resolution\<close>

text \<open>
  The first loop of \<open>convertToMarkdown\<close> walks the tags with these variables.  \<open>tagStack\<close>
  is kept with its top (the array's last element) at the head of the list; an entry is
  the pair of \<open>name\<close> and \<open>line\<close>.  \<open>currentDepth\<close> is a JavaScript number: an \<open>int\<close>, with
  \<open>Math.max(0, currentDepth - 1)\<close> written out.
\<close>

type_synonym tagInfo = "string \<times> (string \<times> string) list"

record DepthState =
  tagDepthMap :: "nat \<rightharpoonup> int"
  tagInfoMap :: "nat \<rightharpoonup> tagInfo"
  tagEndLines :: "nat set"
  currentDepth :: int
  tagStack :: "(string \<times> nat) list"

text \<open>\<open>new Set(structure.horizontalRules)\<close>, iterated in insertion order.\<close>

definition setOfArray :: "nat list \<Rightarrow> nat list" where
  "setOfArray xs = rev (remdups (rev xs))"

text \<open>
  The reset at horizontal rules, for one rule line and for all of them:
  \<open>if (hrLine < tag.line && (tagStack.length === 0 || hrLine > top.line))\<close>.
\<close>

definition resetAtRule ::
  "'a XmlTag_scheme \<Rightarrow> int \<times> (string \<times> nat) list \<Rightarrow> nat \<Rightarrow> int \<times> (string \<times> nat) list" where
  "resetAtRule tag = (\<lambda>(depth, stack) hrLine.
     if hrLine < line tag \<and> (stack = [] \<or> hrLine > snd (hd stack)) then (0, [])
     else (depth, stack))"

definition resetAtRules :: "nat list \<Rightarrow> 'a XmlTag_scheme \<Rightarrow> DepthState \<Rightarrow> DepthState" where
  "resetAtRules hrLines tag S =
     (let (depth, stack) = foldl (resetAtRule tag) (currentDepth S, tagStack S) hrLines
      in S\<lparr>currentDepth := depth, tagStack := stack\<rparr>)"

text \<open>
  The search \<open>for (let i = tagStack.length - 1; i >= 0; i--)\<close> for the nearest entry with
  the tag's name, and its \<open>splice\<close>: the rest of the entry found (its line) and the
  stack without it, or \<open>None\<close> when no entry has the name.
\<close>

fun takeNearest :: "string \<Rightarrow> (string \<times> 'a) list \<Rightarrow> ('a \<times> (string \<times> 'a) list) option" where
  "takeNearest nm [] = None"
| "takeNearest nm (e # es) =
     (if fst e = nm then Some (snd e, es)
      else map_option (\<lambda>(l, es'). (l, e # es')) (takeNearest nm es))"

definition handleTag :: "'a XmlTag_scheme \<Rightarrow> DepthState \<Rightarrow> DepthState" where
  "handleTag tag S =
     (if isOpening tag then
        S\<lparr>tagDepthMap := (tagDepthMap S)(line tag \<mapsto> currentDepth S),
          tagInfoMap := (tagInfoMap S)(line tag \<mapsto> (name tag, attributes tag)),
          tagStack := (name tag, line tag) # tagStack S,
          currentDepth := currentDepth S + 1\<rparr>
      else if isClosing tag then
        (case takeNearest (name tag) (tagStack S) of
           None \<Rightarrow> S\<lparr>tagEndLines := insert (line tag) (tagEndLines S)\<rparr>
         | Some (startLine, stack) \<Rightarrow>
             S\<lparr>tagEndLines := insert (line tag) (tagEndLines S),
               tagStack := stack,
               currentDepth := max 0 (currentDepth S - 1)\<rparr>)
      else if isSelfClosing tag then
        S\<lparr>tagDepthMap := (tagDepthMap S)(line tag \<mapsto> currentDepth S),
          tagInfoMap := (tagInfoMap S)(line tag \<mapsto> (name tag, attributes tag))\<rparr>
      else S)"

definition tagStep :: "nat list \<Rightarrow> DepthState \<Rightarrow> 'a XmlTag_scheme \<Rightarrow> DepthState" where
  "tagStep hrLines S tag = handleTag tag (resetAtRules hrLines tag S)"

definition initialDepthState :: DepthState where
  "initialDepthState =
     \<lparr>tagDepthMap = Map.empty, tagInfoMap = Map.empty, tagEndLines = {},
      currentDepth = 0, tagStack = []\<rparr>"

definition resolveDepths :: "XmlTagSpan DocumentStructure \<Rightarrow> DepthState" where
  "resolveDepths structure =
     foldl (tagStep (setOfArray (horizontalRules structure))) initialDepthState (xmlTags structure)"

subsection \<open>Rewriting the lines\<close>

datatype error = TypeError | RangeError

text \<open>\<open>/^(\s*)(`{3,}|~{3,})(.*)$/\<close>\<close>

definition convertCodeBlockRegex :: re where
  "convertCodeBlockRegex =
     Seq Bol (Seq (Grp 1 (Star (Cls isSpace)))
       (Seq (Grp 2 (Alt (RepMin 3 (Cls (isChar CHR ''`''))) (RepMin 3 (Cls (isChar CHR ''~'')))))
         (Seq (Grp 3 (Star (Cls isDot))) Eol)))"

text \<open>\<open>/<\/?[a-zA-Z_][a-zA-Z0-9_-]*(?:\s+[^>]*)?>/g\<close>\<close>

definition strayTagRegex :: re where
  "strayTagRegex =
     Seq (Cls (isChar CHR ''<'')) (Seq (Opt (Cls (isChar CHR ''/'')))
       (Seq nameRe (Seq (Opt attrRegionRe) (Cls (isChar CHR ''>'')))))"

text \<open>\<open>new RegExp(`<${tagInfo.name}(?:\\s+[^>]*)?>\\s*(.*)$`)\<close>; the characters of a tag name
  have no special meaning in a regular expression.\<close>

definition tagPattern :: "string \<Rightarrow> re" where
  "tagPattern nm =
     Seq (Cls (isChar CHR ''<'')) (Seq (Lit nm) (Seq (Opt attrRegionRe)
       (Seq (Cls (isChar CHR ''>'')) (Seq (Star (Cls isSpace))
         (Seq (Grp 1 (Star (Cls isDot))) Eol)))))"

text \<open>\<open>.replace(/_/g, '\\_')\<close>\<close>

definition escapeName :: "string \<Rightarrow> string" where
  "escapeName s = replaceAll (Cls (isChar CHR ''_'')) (\<lambda>m. [CHR 0x5C, CHR ''_'']) s"

definition formatAttributes :: "(string \<times> string) list \<Rightarrow> string" where
  "formatAttributes attrs =
     (if length attrs > 0 then
        '' ('' @ join '', '' (map (\<lambda>(key, value). escapeName key @ ''='' @ [CHR 0x22] @ value @ [CHR 0x22]) attrs) @ '')''
      else [])"

text \<open>
  The lines pushed for a line that has an entry in \<open>tagDepthMap\<close>.  \<open>tagInfoMap.get(i)!\<close>
  is not checked: without an entry, reading \<open>tagInfo.name\<close> throws a \<open>TypeError\<close>.
  \<open>'#'.repeat\<close> throws a \<open>RangeError\<close> on a negative count.
\<close>

definition headerLevel :: "int \<Rightarrow> int" where
  "headerLevel depth = min (depth + 2) 6"

definition tagLine :: "int \<Rightarrow> tagInfo option \<Rightarrow> string \<Rightarrow> error + string list" where
  "tagLine depth info line' =
     (case info of
        None \<Rightarrow> Inl TypeError
      | Some (nm, attrs) \<Rightarrow>
          if headerLevel depth < 0 then Inl RangeError
          else
            Inr ([repeat ''#'' (nat (headerLevel depth)) @ '' '' @ escapeName nm @ formatAttributes attrs,
                  []] @
                 (case match (tagPattern nm) line' of
                    None \<Rightarrow> []
                  | Some m \<Rightarrow> if trim (capOr m 1) \<noteq> [] then [trim (capOr m 1)] else [])))"

text \<open>The lines pushed for a regular content line: stray tags removed, inline code kept.\<close>

definition contentLine :: "string \<Rightarrow> string list" where
  "contentLine line' =
     (let (masked, codeBlocks) = maskCodeContent line';
          processed = unmaskCodeContent (replaceAll strayTagRegex (\<lambda>m. []) masked) codeBlocks
      in if trim processed \<noteq> [] \<or> trim line' = [] then [processed] else [])"

text \<open>
  One iteration of the second loop of \<open>convertToMarkdown\<close>, at line \<open>i\<close> with the flag
  \<open>inCodeBlock\<close>: the lines it pushes on \<open>result\<close> and the flag it leaves.
\<close>

definition convertLine :: "DepthState \<Rightarrow> nat \<Rightarrow> bool \<Rightarrow> string \<Rightarrow> error + (string list \<times> bool)" where
  "convertLine S i inCodeBlock line' =
     (if match convertCodeBlockRegex line' \<noteq> None then Inr ([line'], \<not> inCodeBlock)
      else if inCodeBlock then Inr ([line'], inCodeBlock)
      else if i \<in> tagEndLines S then Inr ([[]], inCodeBlock)
      else
        (case tagDepthMap S i of
           Some depth \<Rightarrow>
             (case tagLine depth (tagInfoMap S i) line' of
                Inl e \<Rightarrow> Inl e
              | Inr pushed \<Rightarrow> Inr (pushed, inCodeBlock))
         | None \<Rightarrow> Inr (contentLine line', inCodeBlock)))"

text \<open>The loop from line \<open>i\<close> on; \<open>result\<close> is the array being filled.\<close>

fun convertLines :: "DepthState \<Rightarrow> nat \<Rightarrow> bool \<Rightarrow> string list \<Rightarrow> string list \<Rightarrow> error + string list" where
  "convertLines S i inCodeBlock [] result = Inr result"
| "convertLines S i inCodeBlock (line' # rest) result =
     (case convertLine S i inCodeBlock line' of
        Inl e \<Rightarrow> Inl e
      | Inr (pushed, inCodeBlock') \<Rightarrow> convertLines S (Suc i) inCodeBlock' rest (result @ pushed))"

definition convertToMarkdown :: "string \<Rightarrow> error + string" where
  "convertToMarkdown text' =
     (case convertLines (resolveDepths (parseDocumentText text')) 0 False (splitLines text') [] of
        Inl e \<Rightarrow> Inl e
      | Inr result \<Rightarrow> Inr (join [CHR 0x0A] result))"

section \<open>The folding provider\<close>

text \<open>
  What the code reads of a \<open>vscode.TextDocument\<close>: \<open>getText()\<close> and the texts
  \<open>lineAt(i).text\<close> for \<open>i < lineCount\<close>.
\<close>

record TextDocument =
  getText :: string
  lineTexts :: "string list"

definition lineCount :: "TextDocument \<Rightarrow> nat" where
  "lineCount document = length (lineTexts document)"

definition parseDocument :: "TextDocument \<Rightarrow> XmlTagSpan DocumentStructure" where
  "parseDocument document = parseDocumentText (getText document)"

type_synonym range = "nat \<times> nat"

text \<open>The loop over the tags: the ranges found so far and \<open>tagStack\<close> (top at the head).\<close>

definition tagFoldStep ::
  "range list \<times> (string \<times> nat) list \<Rightarrow> 'a XmlTag_scheme \<Rightarrow> range list \<times> (string \<times> nat) list" where
  "tagFoldStep = (\<lambda>(ranges, stack) tag.
     if isOpening tag then (ranges, (name tag, line tag) # stack)
     else if isClosing tag then
       (case takeNearest (name tag) stack of
          None \<Rightarrow> (ranges, stack)
        | Some (startLine, stack') \<Rightarrow>
            (if line tag > startLine then ranges @ [(startLine, line tag)] else ranges, stack'))
     else (ranges, stack))"

text \<open>
  The loop over the headers.  \<open>popHeaders\<close> is the inner \<open>while\<close> that closes the stacked
  headers of the same or a deeper level (an entry is the pair of \<open>level\<close> and \<open>line\<close>);
  \<open>endLine\<close> may be \<open>-1\<close>, so it is an \<open>int\<close>.
\<close>

fun popHeaders :: "nat \<Rightarrow> int \<Rightarrow> (nat \<times> nat) list \<Rightarrow> range list \<Rightarrow> range list \<times> (nat \<times> nat) list" where
  "popHeaders lv endLine [] ranges = (ranges, [])"
| "popHeaders lv endLine ((l, ln) # stack) ranges =
     (if l \<ge> lv then
        popHeaders lv endLine stack (if endLine > int ln then ranges @ [(ln, nat endLine)] else ranges)
      else (ranges, (l, ln) # stack))"

fun popAllHeaders :: "int \<Rightarrow> (nat \<times> nat) list \<Rightarrow> range list \<Rightarrow> range list" where
  "popAllHeaders endLine [] ranges = ranges"
| "popAllHeaders endLine ((l, ln) # stack) ranges =
     popAllHeaders endLine stack (if endLine > int ln then ranges @ [(ln, nat endLine)] else ranges)"

fun headerFolds :: "nat \<Rightarrow> MarkdownHeader list \<Rightarrow> range list \<Rightarrow> (nat \<times> nat) list \<Rightarrow> range list" where
  "headerFolds count [] ranges stack = ranges"
| "headerFolds count (current # later) ranges stack =
     (let (ranges', stack') = popHeaders (level current) (int (hline current) - 1) stack ranges;
          stack'' = (level current, hline current) # stack'
      in if later = [] then popAllHeaders (int count - 1) stack'' ranges'
         else headerFolds count later ranges' stack'')"

text \<open>The loop over the lines that pairs the fence lines.\<close>

fun codeFolds :: "nat \<Rightarrow> string list \<Rightarrow> nat option \<Rightarrow> range list \<Rightarrow> range list" where
  "codeFolds i [] codeBlockStart ranges = ranges"
| "codeFolds i (line' # rest) codeBlockStart ranges =
     (if test codeBlockRegex line' then
        (case codeBlockStart of
           None \<Rightarrow> codeFolds (Suc i) rest (Some i) ranges
         | Some start \<Rightarrow> codeFolds (Suc i) rest None (if i > start then ranges @ [(start, i)] else ranges))
      else codeFolds (Suc i) rest codeBlockStart ranges)"

definition provideFoldingRanges :: "TextDocument \<Rightarrow> range list" where
  "provideFoldingRanges document =
     (let structure = parseDocument document;
          tagRanges = fst (foldl tagFoldStep ([], []) (xmlTags structure));
          headerRanges =
            headerFolds (lineCount document) (sort_key hline (headers structure)) tagRanges []
      in codeFolds 0 (lineTexts document) None headerRanges)"

section \<open>The beautifier\<close>

text \<open>
  \<open>beautifyDocument\<close> is the same code in \<open>src/extension.ts\<close> and in the file with
  \<open>parseDocumentText\<close>.  Its edit replaces the whole document by the text modelled here.
  \<open>currentIndent\<close> starts at 0 and \<open>Math.max(0, currentIndent - 1)\<close> is the subtraction of
  \<open>nat\<close>.
\<close>

text \<open>\<open>/^(\s*)<([a-zA-Z_][a-zA-Z0-9_-]*)(\s+[^>]*)?>(\s*)$/\<close>\<close>

definition openingTagRegex :: re where
  "openingTagRegex =
     Seq Bol (Seq (Grp 1 (Star (Cls isSpace))) (Seq (Cls (isChar CHR ''<'')) (Seq (Grp 2 nameRe)
       (Seq (Opt (Grp 3 attrRegionRe)) (Seq (Cls (isChar CHR ''>''))
         (Seq (Grp 4 (Star (Cls isSpace))) Eol))))))"

text \<open>\<open>/^(\s*)<\/([a-zA-Z_][a-zA-Z0-9_-]*)>(\s*)$/\<close>\<close>

definition closingTagRegex :: re where
  "closingTagRegex =
     Seq Bol (Seq (Grp 1 (Star (Cls isSpace))) (Seq (Cls (isChar CHR ''<''))
       (Seq (Cls (isChar CHR ''/'')) (Seq (Grp 2 nameRe) (Seq (Cls (isChar CHR ''>''))
         (Seq (Grp 3 (Star (Cls isSpace))) Eol))))))"

text \<open>\<open>/^(\s*)<([a-zA-Z_][a-zA-Z0-9_-]*)(\s+[^>]*)?\/>\s*$/\<close>\<close>

definition selfClosingTagRegex :: re where
  "selfClosingTagRegex =
     Seq Bol (Seq (Grp 1 (Star (Cls isSpace))) (Seq (Cls (isChar CHR ''<'')) (Seq (Grp 2 nameRe)
       (Seq (Opt (Grp 3 attrRegionRe)) (Seq (Cls (isChar CHR ''/'')) (Seq (Cls (isChar CHR ''>''))
         (Seq (Star (Cls isSpace)) Eol)))))))"

text \<open>\<open>/^(\s*)(#{1,6}\s+.*)$/\<close>\<close>

definition beautifyHeaderRegex :: re where
  "beautifyHeaderRegex =
     Seq Bol (Seq (Grp 1 (Star (Cls isSpace)))
       (Seq (Grp 2 (Seq (RepRange 1 6 (Cls (isChar CHR ''#'')))
          (Seq (Plus (Cls isSpace)) (Star (Cls isDot))))) Eol))"

definition indentString :: string where
  "indentString = ''  ''"

fun beautifyLines :: "nat \<Rightarrow> bool \<Rightarrow> string list \<Rightarrow> string list \<Rightarrow> string list" where
  "beautifyLines currentIndent inCodeBlock [] result = result"
| "beautifyLines currentIndent inCodeBlock (line' # rest) result =
     (if match codeBlockRegex line' \<noteq> None then
        beautifyLines currentIndent (\<not> inCodeBlock) rest
          (result @ [repeat indentString currentIndent @ trim line'])
      else if inCodeBlock then beautifyLines currentIndent inCodeBlock rest (result @ [line'])
      else if match closingTagRegex line' \<noteq> None then
        beautifyLines (currentIndent - 1) inCodeBlock rest
          (result @ [repeat indentString (currentIndent - 1) @ trim line'])
      else if match selfClosingTagRegex line' \<noteq> None then
        beautifyLines currentIndent inCodeBlock rest
          (result @ [repeat indentString currentIndent @ trim line'])
      else if match openingTagRegex line' \<noteq> None then
        beautifyLines (currentIndent + 1) inCodeBlock rest
          (result @ [repeat indentString currentIndent @ trim line'])
      else if match beautifyHeaderRegex line' \<noteq> None then
        beautifyLines currentIndent inCodeBlock rest (result @ [trim line'])
      else if trim line' = [] then beautifyLines currentIndent inCodeBlock rest (result @ [[]])
      else
        beautifyLines currentIndent inCodeBlock rest
          (result @ [repeat indentString currentIndent @ trim line']))"

definition beautifyText :: "string \<Rightarrow> string" where
  "beautifyText text' = join [CHR 0x0A] (beautifyLines 0 False (splitLines text') [])"

definition beautifyDocument :: "TextDocument \<Rightarrow> string" where
  "beautifyDocument document = beautifyText (getText document)"

section \<open>The line-by-line converter \<open>convertClaudeMdToMarkdown\<close>\<close>

text \<open>
  The second file of the repository that converts to Markdown keeps the character and
  the length of the fence that opened a code block, and a stack of \<open>TagInfo\<close> (name,
  attributes, depth; top at the head) instead of a parsed structure.
\<close>

type_synonym TagInfo = "string \<times> string \<times> nat"

text \<open>\<open>str.includes(sub)\<close> and the first occurrence of a text in another one.\<close>

fun findSub :: "string \<Rightarrow> string \<Rightarrow> (string \<times> string) option" where
  "findSub pat [] = (if pat = [] then Some ([], []) else None)"
| "findSub pat (c # t) =
     (if take (length pat) (c # t) = pat then Some ([], drop (length pat) (c # t))
      else map_option (\<lambda>(pre, post). (c # pre, post)) (findSub pat t))"

definition includesStr :: "string \<Rightarrow> string \<Rightarrow> bool" where
  "includesStr s sub = (findSub sub s \<noteq> None)"

text \<open>\<open>new RegExp(`^\\s*${fenceChar}{${fenceLength},}\\s*$`)\<close>\<close>

definition closingFenceRegex :: "string \<Rightarrow> nat \<Rightarrow> re" where
  "closingFenceRegex fenceChar fenceLength =
     Seq Bol (Seq (Star (Cls isSpace)) (Seq (RepMin fenceLength (Lit fenceChar))
       (Seq (Star (Cls isSpace)) Eol)))"

text \<open>\<open>/^<\/([a-zA-Z_][a-zA-Z0-9_-]*)>\s*$/\<close>\<close>

definition standaloneClosingRegex :: re where
  "standaloneClosingRegex =
     Seq Bol (Seq (Cls (isChar CHR ''<'')) (Seq (Cls (isChar CHR ''/'')) (Seq (Grp 1 nameRe)
       (Seq (Cls (isChar CHR ''>'')) (Seq (Star (Cls isSpace)) Eol)))))"

text \<open>\<open>/^<([a-zA-Z_][a-zA-Z0-9_-]*)(\s+[^>]*)?>$/\<close>\<close>

definition standaloneOpeningRegex :: re where
  "standaloneOpeningRegex =
     Seq Bol (Seq (Cls (isChar CHR ''<'')) (Seq (Grp 1 nameRe) (Seq (Opt (Grp 2 attrRegionRe))
       (Seq (Cls (isChar CHR ''>'')) Eol))))"

text \<open>\<open>/^<([a-zA-Z_][a-zA-Z0-9_-]*)(\s+[^>]*)?>(.+)<\/\1>$/\<close>\<close>

definition inlineTagRegex :: re where
  "inlineTagRegex =
     Seq Bol (Seq (Cls (isChar CHR ''<'')) (Seq (Grp 1 nameRe) (Seq (Opt (Grp 2 attrRegionRe))
       (Seq (Cls (isChar CHR ''>'')) (Seq (Grp 3 (Plus (Cls isDot)))
         (Seq (Cls (isChar CHR ''<'')) (Seq (Cls (isChar CHR ''/'')) (Seq (Bref 1)
           (Seq (Cls (isChar CHR ''>'')) Eol)))))))))"

text \<open>\<open>/^<([a-zA-Z_][a-zA-Z0-9_-]*)(\s+[^>]*)?>(.+)$/\<close>\<close>

definition openingWithContentRegex :: re where
  "openingWithContentRegex =
     Seq Bol (Seq (Cls (isChar CHR ''<'')) (Seq (Grp 1 nameRe) (Seq (Opt (Grp 2 attrRegionRe))
       (Seq (Cls (isChar CHR ''>'')) (Seq (Grp 3 (Plus (Cls isDot))) Eol)))))"

definition escapeMarkdownInHeader :: "string \<Rightarrow> string" where
  "escapeMarkdownInHeader text' =
     replaceAll (Cls (isChar CHR ''_'')) (\<lambda>m. [CHR 0x5C, CHR ''_'']) text'"

text \<open>
  \<open>processContentLine\<close>: the inline code \<open>/`[^`]+`/g\<close> is put aside, the tags
  \<open>/<\/?[a-zA-Z_][a-zA-Z0-9_-]*(\s+[^>]*)?>/g\<close> are removed, the code is restored.
\<close>

definition inlineCodeRegex :: re where
  "inlineCodeRegex =
     Seq (Cls (isChar CHR ''`'')) (Seq (Plus (Cls (notChar CHR ''`''))) (Cls (isChar CHR ''`'')))"

definition strayTagRegex_cm :: re where
  "strayTagRegex_cm =
     Seq (Cls (isChar CHR ''<'')) (Seq (Opt (Cls (isChar CHR ''/'')))
       (Seq nameRe (Seq (Opt (Grp 1 attrRegionRe)) (Cls (isChar CHR ''>'')))))"

definition processContentLine :: "string \<Rightarrow> string" where
  "processContentLine line' =
     (let (processed, codeSegments) = maskPass inlineCodeRegex (line', [])
      in unmaskCodeContent (replaceAll strayTagRegex_cm (\<lambda>m. []) processed) codeSegments)"

text \<open>The header text shared by the three tag cases of \<open>processLine\<close>.\<close>

definition headerOf :: "string \<Rightarrow> string \<Rightarrow> nat \<Rightarrow> string" where
  "headerOf tagName attrs depth =
     repeat ''#'' (min (depth + 2) 6) @ '' '' @ escapeMarkdownInHeader tagName @
     (if attrs \<noteq> [] then '' ('' @ escapeMarkdownInHeader attrs @ '')'' else [])"

text \<open>\<open>m[2] ? m[2].trim() : ''\<close>\<close>

definition attrsOf :: "jsmatch \<Rightarrow> string" where
  "attrsOf m = (if capOr m 2 \<noteq> [] then trim (capOr m 2) else [])"

text \<open>
  \<open>processLine\<close> returns the text to push (\<open>string | null\<close>, here an option) and the
  stack it has updated.
\<close>

definition processLine :: "string \<Rightarrow> TagInfo list \<Rightarrow> string option \<times> TagInfo list" where
  "processLine line' stack =
     (let trimmed = trim line' in
      if trimmed = [] then (Some [], stack)
      else case match standaloneClosingRegex trimmed of
        Some m \<Rightarrow>
          (Some [], case takeNearest (capOr m 1) stack of None \<Rightarrow> stack | Some (x, stack') \<Rightarrow> stack')
      | None \<Rightarrow>
      (case match standaloneOpeningRegex trimmed of
        Some m \<Rightarrow>
          (Some (headerOf (capOr m 1) (attrsOf m) (length stack) @ [CHR 0x0A]),
           (capOr m 1, attrsOf m, length stack) # stack)
      | None \<Rightarrow>
      (case match inlineTagRegex trimmed of
        Some m \<Rightarrow>
          (Some (headerOf (capOr m 1) (attrsOf m) (length stack) @ [CHR 0x0A, CHR 0x0A] @
                 trim (capOr m 3) @ [CHR 0x0A]), stack)
      | None \<Rightarrow>
      (case match openingWithContentRegex trimmed of
        Some m \<Rightarrow>
          if \<not> includesStr (capOr m 3) ''</'' then
            (Some (headerOf (capOr m 1) (attrsOf m) (length stack) @
                   (if trim (capOr m 3) \<noteq> [] then [CHR 0x0A, CHR 0x0A] @ trim (capOr m 3)
                    else [CHR 0x0A])),
             (capOr m 1, attrsOf m, length stack) # stack)
          else (Some (processContentLine line'), stack)
      | None \<Rightarrow> (Some (processContentLine line'), stack)))))"

text \<open>
  The loop of \<open>convertClaudeMdToMarkdown\<close>, with its variables \<open>inFencedCodeBlock\<close>,
  \<open>fenceChar\<close>, \<open>fenceLength\<close>, \<open>tagStack\<close> and \<open>output\<close>.
\<close>

record FenceState =
  inFencedCodeBlock :: bool
  fenceChar :: string
  fenceLength :: nat

text \<open>
  The fence check at the head of the loop body: the new state when the line starts or
  closes a code block (the line is then pushed as it is), \<open>None\<close> when the body falls
  through to the checks below.
\<close>

definition fenceStep :: "FenceState \<Rightarrow> string \<Rightarrow> FenceState option" where
  "fenceStep F line' =
     (case match convertCodeBlockRegex line' of
        None \<Rightarrow> None
      | Some fenceMatch \<Rightarrow>
          if \<not> inFencedCodeBlock F then
            Some \<lparr>inFencedCodeBlock = True, fenceChar = take 1 (capOr fenceMatch 2),
                  fenceLength = length (capOr fenceMatch 2)\<rparr>
          else if match (closingFenceRegex (fenceChar F) (fenceLength F)) line' \<noteq> None then
            Some (F\<lparr>inFencedCodeBlock := False\<rparr>)
          else None)"

fun convertLines_cm :: "FenceState \<Rightarrow> TagInfo list \<Rightarrow> string list \<Rightarrow> string list \<Rightarrow> string list" where
  "convertLines_cm F stack [] output = output"
| "convertLines_cm F stack (line' # rest) output =
     (case fenceStep F line' of
        Some F' \<Rightarrow> convertLines_cm F' stack rest (output @ [line'])
      | None \<Rightarrow>
          if inFencedCodeBlock F then convertLines_cm F stack rest (output @ [line'])
          else
            (case processLine line' stack of
               (Some processedLine, stack') \<Rightarrow> convertLines_cm F stack' rest (output @ [processedLine])
             | (None, stack') \<Rightarrow> convertLines_cm F stack' rest output))"

definition convertClaudeMdToMarkdown :: "string \<Rightarrow> string" where
  "convertClaudeMdToMarkdown text' =
     join [CHR 0x0A]
       (convertLines_cm \<lparr>inFencedCodeBlock = False, fenceChar = [], fenceLength = 0\<rparr> []
          (splitLines text') [])"

text \<open>
  The beautifier of the same file tests the trimmed line:
  \<open>/^<\/[a-zA-Z_][a-zA-Z0-9_-]*>\s*$/\<close>, \<open>/^<[a-zA-Z_][a-zA-Z0-9_-]*(\s+[^>]*)?>$/\<close> and
  \<open>/^#{1,6}\s+/\<close>.
\<close>

definition headerStartRegex :: re where
  "headerStartRegex = Seq Bol (Seq (RepRange 1 6 (Cls (isChar CHR ''#''))) (Plus (Cls isSpace)))"

fun beautifyLines_cm :: "nat \<Rightarrow> bool \<Rightarrow> string list \<Rightarrow> string list \<Rightarrow> string list" where
  "beautifyLines_cm depth inCodeBlock [] result = result"
| "beautifyLines_cm depth inCodeBlock (line' # rest) result =
     (if test codeBlockRegex line' then
        beautifyLines_cm depth (\<not> inCodeBlock) rest (result @ [repeat indentString depth @ trim line'])
      else if inCodeBlock then beautifyLines_cm depth inCodeBlock rest (result @ [line'])
      else if trim line' = [] then beautifyLines_cm depth inCodeBlock rest (result @ [[]])
      else if test standaloneClosingRegex (trim line') then
        beautifyLines_cm (depth - 1) inCodeBlock rest
          (result @ [repeat indentString (depth - 1) @ trim line'])
      else if test standaloneOpeningRegex (trim line') then
        beautifyLines_cm (depth + 1) inCodeBlock rest (result @ [repeat indentString depth @ trim line'])
      else if test headerStartRegex (trim line') then
        beautifyLines_cm depth inCodeBlock rest (result @ [trim line'])
      else beautifyLines_cm depth inCodeBlock rest (result @ [repeat indentString depth @ trim line']))"

definition beautifyText_cm :: "string \<Rightarrow> string" where
  "beautifyText_cm text' = join [CHR 0x0A] (beautifyLines_cm 0 False (splitLines text') [])"

section \<open>The extractor and the transformer of \<open>src/extension.ts\<close>\<close>

text \<open>
  \<open>parseDocument\<close> of \<open>src/extension.ts\<close> reads the lines of the document, does not mask
  inline code, and removes the self-closing tags (rather than blanking them) before it
  looks for opening tags.
\<close>

definition selfClosingTag_ext :: "nat \<Rightarrow> nat \<Rightarrow> jsmatch \<Rightarrow> XmlTag" where
  "selfClosingTag_ext i ind m =
     \<lparr>name = capOr m 1, line = i, indent = ind, isOpening = False, isClosing = False,
      isSelfClosing = True, attributes = parseAttributes (capOr m 2)\<rparr>"

definition closingTag_ext :: "nat \<Rightarrow> nat \<Rightarrow> jsmatch \<Rightarrow> XmlTag" where
  "closingTag_ext i ind m =
     \<lparr>name = capOr m 1, line = i, indent = ind, isOpening = False, isClosing = True,
      isSelfClosing = False, attributes = []\<rparr>"

definition openingTag_ext :: "nat \<Rightarrow> nat \<Rightarrow> jsmatch \<Rightarrow> XmlTag" where
  "openingTag_ext i ind m =
     \<lparr>name = capOr m 1, line = i, indent = ind, isOpening = True, isClosing = False,
      isSelfClosing = False, attributes = parseAttributes (capOr m 2)\<rparr>"

definition lineTags_ext :: "nat \<Rightarrow> string \<Rightarrow> XmlTag list" where
  "lineTags_ext i text' =
     (let ind = length text' - length (trimStart text');
          textWithoutSelfClosing = replaceAll xmlSelfClosingRegex (\<lambda>m. []) text'
      in map (selfClosingTag_ext i ind) (scan xmlSelfClosingRegex 0 text') @
         map (closingTag_ext i ind) (scan xmlClosingTagRegex 0 text') @
         map (openingTag_ext i ind) (scan xmlOpeningTagRegex 0 textWithoutSelfClosing))"

fun parseLines_ext ::
  "nat \<Rightarrow> bool \<Rightarrow> string list \<Rightarrow> XmlTag DocumentStructure \<Rightarrow> XmlTag DocumentStructure" where
  "parseLines_ext i inCodeBlock [] acc = acc"
| "parseLines_ext i inCodeBlock (text' # rest) acc =
     (if match codeBlockRegex text' \<noteq> None then parseLines_ext (Suc i) (\<not> inCodeBlock) rest acc
      else if inCodeBlock then parseLines_ext (Suc i) inCodeBlock rest acc
      else if test horizontalRuleRegex text' then
        parseLines_ext (Suc i) inCodeBlock rest
          (acc\<lparr>horizontalRules := horizontalRules acc @ [i]\<rparr>)
      else
        parseLines_ext (Suc i) inCodeBlock rest
          (acc\<lparr>headers := headers acc @ lineHeaders i text',
               xmlTags := xmlTags acc @ lineTags_ext i text'\<rparr>))"

definition parseDocument_ext :: "TextDocument \<Rightarrow> XmlTag DocumentStructure" where
  "parseDocument_ext document =
     parseLines_ext 0 False (lineTexts document) \<lparr>xmlTags = [], headers = [], horizontalRules = []\<rparr>"

text \<open>
  The reset of \<open>src/extension.ts\<close>: \<open>if (tag.line > 0)\<close>, and for each rule line
  \<open>if (hrLine < tag.line && hrLine > (tagStack.length > 0 ? top.line : 0))\<close>.
\<close>

definition resetAtRule_ext ::
  "'a XmlTag_scheme \<Rightarrow> int \<times> (string \<times> nat) list \<Rightarrow> nat \<Rightarrow> int \<times> (string \<times> nat) list" where
  "resetAtRule_ext tag = (\<lambda>(depth, stack) hrLine.
     if hrLine < line tag \<and> hrLine > (if length stack > 0 then snd (hd stack) else 0) then (0, [])
     else (depth, stack))"

definition resetAtRules_ext :: "nat list \<Rightarrow> 'a XmlTag_scheme \<Rightarrow> DepthState \<Rightarrow> DepthState" where
  "resetAtRules_ext hrLines tag S =
     (if line tag > 0 then
        (let (depth, stack) = foldl (resetAtRule_ext tag) (currentDepth S, tagStack S) hrLines
         in S\<lparr>currentDepth := depth, tagStack := stack\<rparr>)
      else S)"

definition tagStep_ext :: "nat list \<Rightarrow> DepthState \<Rightarrow> 'a XmlTag_scheme \<Rightarrow> DepthState" where
  "tagStep_ext hrLines S tag = handleTag tag (resetAtRules_ext hrLines tag S)"

definition resolveDepths_ext :: "XmlTag DocumentStructure \<Rightarrow> DepthState" where
  "resolveDepths_ext structure =
     foldl (tagStep_ext (setOfArray (horizontalRules structure))) initialDepthState (xmlTags structure)"

text \<open>\<open>/^(\s*)(`{3,}|~{3,})(\S*)?$/\<close>\<close>

definition convertCodeBlockRegex_ext :: re where
  "convertCodeBlockRegex_ext =
     Seq Bol (Seq (Grp 1 (Star (Cls isSpace)))
       (Seq (Grp 2 (Alt (RepMin 3 (Cls (isChar CHR ''`''))) (RepMin 3 (Cls (isChar CHR ''~'')))))
         (Seq (Opt (Grp 3 (Star (Cls (\<lambda>c. \<not> isSpace c))))) Eol)))"

text \<open>\<open>new RegExp(`<${tagInfo.name}(?:\\s+[^>]*)?>(.*)$`)\<close>\<close>

definition tagPattern_ext :: "string \<Rightarrow> re" where
  "tagPattern_ext nm =
     Seq (Cls (isChar CHR ''<'')) (Seq (Lit nm) (Seq (Opt attrRegionRe)
       (Seq (Cls (isChar CHR ''>'')) (Seq (Grp 1 (Star (Cls isDot))) Eol))))"

text \<open>\<open>/<([a-zA-Z_][a-zA-Z0-9_-]*)(?:\s+[^>]*)?>(.+?)<\/\1>/g\<close>\<close>

definition inlineTagRegex_ext :: re where
  "inlineTagRegex_ext =
     Seq (Cls (isChar CHR ''<'')) (Seq (Grp 1 nameRe) (Seq (Opt attrRegionRe)
       (Seq (Cls (isChar CHR ''>'')) (Seq (Grp 2 (LazyPlus (Cls isDot)))
         (Seq (Cls (isChar CHR ''<'')) (Seq (Cls (isChar CHR ''/'')) (Seq (Bref 1)
           (Cls (isChar CHR ''>'')))))))))"

text \<open>
  \<open>str.replace(pattern, replacement)\<close> with two strings replaces the first occurrence of
  the pattern; in the replacement \<open>$$\<close>, \<open>$&\<close>, \<open>$`\<close> and \<open>$'\<close> stand for a dollar sign, the
  matched text, the text before it and the text after it (there are no captures, so
  \<open>$1\<close> stays as it is).
\<close>

fun expandReplacement :: "string \<Rightarrow> string \<Rightarrow> string \<Rightarrow> string \<Rightarrow> string" where
  "expandReplacement matched pre post [] = []"
| "expandReplacement matched pre post [c] = [c]"
| "expandReplacement matched pre post (c # d # new) =
     (if c = CHR ''$'' \<and> d = CHR ''$'' then CHR ''$'' # expandReplacement matched pre post new
      else if c = CHR ''$'' \<and> d = CHR ''&'' then matched @ expandReplacement matched pre post new
      else if c = CHR ''$'' \<and> d = CHR ''`'' then pre @ expandReplacement matched pre post new
      else if c = CHR ''$'' \<and> d = CHR 0x27 then post @ expandReplacement matched pre post new
      else c # expandReplacement matched pre post (d # new))"

definition replaceFirst :: "string \<Rightarrow> string \<Rightarrow> string \<Rightarrow> string" where
  "replaceFirst pat new s =
     (case findSub pat s of
        None \<Rightarrow> s
      | Some (pre, post) \<Rightarrow> pre @ expandReplacement pat pre post new @ post)"

definition formatAttributes_ext :: "(string \<times> string) list \<Rightarrow> string" where
  "formatAttributes_ext attrs =
     (if length attrs > 0 then
        '' ('' @ join '', '' (map (\<lambda>(key, value). key @ ''='' @ [CHR 0x22] @ value @ [CHR 0x22]) attrs) @ '')''
      else [])"

definition tagLine_ext :: "int \<Rightarrow> tagInfo option \<Rightarrow> string \<Rightarrow> error + string list" where
  "tagLine_ext depth info line' =
     (case info of
        None \<Rightarrow> Inl TypeError
      | Some (nm, attrs) \<Rightarrow>
          if headerLevel depth < 0 then Inl RangeError
          else
            Inr ([repeat ''#'' (nat (headerLevel depth)) @ '' '' @ nm @ formatAttributes_ext attrs] @
                 (case match (tagPattern_ext nm) line' of
                    None \<Rightarrow> []
                  | Some m \<Rightarrow> if trim (capOr m 1) \<noteq> [] then [trim (capOr m 1)] else [])))"

text \<open>
  A line without a line tag: each inline element \<open><x>content</x>\<close> becomes
  \<open>**x**: content\<close>, then the remaining tags are removed.
\<close>

definition contentLine_ext :: "string \<Rightarrow> string list" where
  "contentLine_ext line' =
     (let inlined =
            foldl (\<lambda>processedLine m.
                     replaceFirst (m_text m) (''**'' @ capOr m 1 @ ''**: '' @ capOr m 2) processedLine)
                  line' (scan inlineTagRegex_ext 0 line');
          processedLine = replaceAll strayTagRegex (\<lambda>m. []) inlined
      in if trim processedLine \<noteq> [] \<or> trim line' = [] then [processedLine] else [])"

text \<open>One iteration of the second loop (a line with a closing tag pushes nothing), and
  the loop.\<close>

definition convertLine_ext :: "DepthState \<Rightarrow> nat \<Rightarrow> bool \<Rightarrow> string \<Rightarrow> error + (string list \<times> bool)" where
  "convertLine_ext S i inCodeBlock line' =
     (if match convertCodeBlockRegex_ext line' \<noteq> None then Inr ([line'], \<not> inCodeBlock)
      else if inCodeBlock then Inr ([line'], inCodeBlock)
      else if i \<in> tagEndLines S then Inr ([], inCodeBlock)
      else
        (case tagDepthMap S i of
           Some depth \<Rightarrow>
             (case tagLine_ext depth (tagInfoMap S i) line' of
                Inl e \<Rightarrow> Inl e
              | Inr pushed \<Rightarrow> Inr (pushed, inCodeBlock))
         | None \<Rightarrow> Inr (contentLine_ext line', inCodeBlock)))"

fun convertLines_ext :: "DepthState \<Rightarrow> nat \<Rightarrow> bool \<Rightarrow> string list \<Rightarrow> string list \<Rightarrow> error + string list" where
  "convertLines_ext S i inCodeBlock [] result = Inr result"
| "convertLines_ext S i inCodeBlock (line' # rest) result =
     (case convertLine_ext S i inCodeBlock line' of
        Inl e \<Rightarrow> Inl e
      | Inr (pushed, inCodeBlock') \<Rightarrow> convertLines_ext S (Suc i) inCodeBlock' rest (result @ pushed))"

definition convertToMarkdown_ext :: "TextDocument \<Rightarrow> error + string" where
  "convertToMarkdown_ext document =
     (case convertLines_ext (resolveDepths_ext (parseDocument_ext document)) 0 False
             (splitLines (getText document)) [] of
        Inl e \<Rightarrow> Inl e
      | Inr result \<Rightarrow> Inr (join [CHR 0x0A] result))"

section \<open>Notions used in the statements and proofs\<close>

text \<open>
  The language of a regular expression without anchors and backreferences (\<open>plain\<close>),
  and the rests of the input that the matcher can reach from a state.
\<close>

inductive_set star :: "string set \<Rightarrow> string set" for A :: "string set" where
  star_empty: "[] \<in> star A"
| star_step: "u \<in> A \<Longrightarrow> v \<in> star A \<Longrightarrow> u @ v \<in> star A"

fun lang :: "re \<Rightarrow> string set" where
  "lang Eps = {[]}"
| "lang (Cls p) = {[c] | c. p c}"
| "lang (Seq a b) = {u @ v | u v. u \<in> lang a \<and> v \<in> lang b}"
| "lang (Alt a b) = lang a \<union> lang b"
| "lang (Star a) = star (lang a)"
| "lang (LazyStar a) = star (lang a)"
| "lang (Grp k a) = lang a"
| "lang (Bref k) = {}"
| "lang Bol = {}"
| "lang Eol = {}"

fun plain :: "re \<Rightarrow> bool" where
  "plain Eps = True"
| "plain (Cls p) = True"
| "plain (Seq a b) = (plain a \<and> plain b)"
| "plain (Alt a b) = (plain a \<and> plain b)"
| "plain (Star a) = plain a"
| "plain (LazyStar a) = plain a"
| "plain (Grp k a) = plain a"
| "plain (Bref k) = False"
| "plain Bol = False"
| "plain Eol = False"

definition reaches :: "re \<Rightarrow> mstate \<Rightarrow> string \<Rightarrow> bool" where
  "reaches r st t = (\<exists>n' cs'. (n', t, cs') \<in> set (ms r st))"

text \<open>
  The flag \<open>inCodeBlock\<close> after a list of lines, for a loop that toggles it on every line
  matching the fence expression \<open>r\<close>; and the lines that the loop of \<open>parseDocumentText\<close>
  scans for tags and headers (with their indices): those that are no fence line, lie
  outside code blocks and are no horizontal rule.
\<close>

definition fenceFlag :: "re \<Rightarrow> bool \<Rightarrow> string list \<Rightarrow> bool" where
  "fenceFlag r b ls = foldl (\<lambda>b l. if match r l \<noteq> None then \<not> b else b) b ls"

fun scannedLines :: "nat \<Rightarrow> bool \<Rightarrow> string list \<Rightarrow> (nat \<times> string) list" where
  "scannedLines i inCodeBlock [] = []"
| "scannedLines i inCodeBlock (line' # rest) =
     (if match codeBlockRegex line' \<noteq> None then scannedLines (Suc i) (\<not> inCodeBlock) rest
      else if inCodeBlock then scannedLines (Suc i) inCodeBlock rest
      else if test horizontalRuleRegex line' then scannedLines (Suc i) inCodeBlock rest
      else (i, line') # scannedLines (Suc i) inCodeBlock rest)"

text \<open>The three groups of tags that \<open>lineTags\<close> concatenates.\<close>

definition selfTags :: "nat \<Rightarrow> string \<Rightarrow> XmlTagSpan list" where
  "selfTags i l = map (selfClosingTag i (length l - length (trimStart l)))
     (scan xmlSelfClosingRegex 0 (fst (maskCodeContent l)))"

definition closeTags :: "nat \<Rightarrow> string \<Rightarrow> XmlTagSpan list" where
  "closeTags i l = map (closingTag i (length l - length (trimStart l)))
     (scan xmlClosingTagRegex 0 (fst (maskCodeContent l)))"

definition openTags :: "nat \<Rightarrow> string \<Rightarrow> XmlTagSpan list" where
  "openTags i l = map (openingTag i (length l - length (trimStart l)))
     (scan xmlOpeningTagRegex 0
        (replaceAll xmlSelfClosingRegex (\<lambda>m. replicate (length (m_text m)) CHR '' '')
           (fst (maskCodeContent l))))"

text \<open>
  The invariant of the depth resolution (the depth counter and the recorded depths are
  not negative, and the two maps have the same keys), and the states that the reset for
  a tag of line \<open>i\<close> leaves as they are.
\<close>


definition depthInv :: "DepthState \<Rightarrow> bool" where
  "depthInv S \<longleftrightarrow> 0 \<le> currentDepth S \<and> (\<forall>k d. tagDepthMap S k = Some d \<longrightarrow> 0 \<le> d) \<and>
     dom (tagDepthMap S) = dom (tagInfoMap S)"



text \<open>A regular expression that can only match at a character satisfying \<open>p\<close>.\<close>

definition needs :: "re \<Rightarrow> (char \<Rightarrow> bool) \<Rightarrow> bool" where
  "needs r p \<longleftrightarrow> (\<forall>n t cs. (t = [] \<or> \<not> p (hd t)) \<longrightarrow> ms r (n, t, cs) = [])"




text \<open>
  The opening tags that are still unmatched after a list of tags, innermost first, in the
  words of the specification: an opening tag is pushed, and a closing tag removes the
  nearest entry of its name, if there is one.
\<close>

definition openStep :: "string list \<Rightarrow> 'a XmlTag_scheme \<Rightarrow> string list" where
  "openStep st t =
     (if isOpening t then name t # st
      else if isClosing t then remove1 (name t) st
      else st)"

definition unmatchedOpenings :: "'a XmlTag_scheme list \<Rightarrow> string list" where
  "unmatchedOpenings ts = foldl openStep [] ts"




section \<open>What the matcher accepts\<close>

text \<open>
  For a regular expression without anchors and backreferences, the matcher reaches a
  rest \<open>t\<close> of the input \<open>s\<close> exactly when \<open>s\<close> is a word of the expression's language
  followed by \<open>t\<close>, whatever the position and the captures it starts with.
\<close>

lemma reaches_Seq:
  "reaches (Seq a b) st t \<longleftrightarrow> (\<exists>m \<in> set (ms a st). reaches b m t)"
  by (auto simp: reaches_def)

lemma reaches_Eps: "reaches Eps (n, s, cs) t \<longleftrightarrow> t = s"
  by (simp add: reaches_def)

lemma reaches_Cls: "reaches (Cls p) (n, s, cs) t \<longleftrightarrow> (\<exists>c. s = c # t \<and> p c)"
  by (cases s) (auto simp add: reaches_def)

lemma reaches_Alt: "reaches (Alt a b) st t \<longleftrightarrow> reaches a st t \<or> reaches b st t"
  by (auto simp: reaches_def)

lemma in_ms_Grp:
  "(n', t, cs') \<in> set (ms (Grp k a) (n, s, cs)) \<longleftrightarrow>
     (\<exists>cs''. (n', t, cs'') \<in> set (ms a (n, s, cs)) \<and> cs' = (k, take (n' - n) s) # cs'')"
  by (force simp add: image_iff)

lemma reaches_Grp: "reaches (Grp k a) (n, s, cs) t \<longleftrightarrow> reaches a (n, s, cs) t"
  unfolding reaches_def by (subst in_ms_Grp) blast

lemma reaches_I: "(n', t, cs') \<in> set (ms r st) \<Longrightarrow> reaches r st t"
  by (auto simp: reaches_def)

declare ms.simps(5,6) [simp del]

lemma in_ms_Star:
  "x \<in> set (ms (Star a) (n, s, cs)) \<longleftrightarrow>
     x = (n, s, cs) \<or>
     (\<exists>m \<in> set (ms a (n, s, cs)). length (fst (snd m)) < length s \<and> x \<in> set (ms (Star a) m))"
  by (subst ms.simps(5)) (auto split: if_splits)

lemma in_ms_LazyStar:
  "x \<in> set (ms (LazyStar a) (n, s, cs)) \<longleftrightarrow>
     x = (n, s, cs) \<or>
     (\<exists>m \<in> set (ms a (n, s, cs)). length (fst (snd m)) < length s \<and> x \<in> set (ms (LazyStar a) m))"
  by (subst ms.simps(6)) (auto split: if_splits)

lemma reaches_Star_unfold:
  "reaches (Star a) (n, s, cs) t \<longleftrightarrow>
     t = s \<or> (\<exists>m \<in> set (ms a (n, s, cs)). length (fst (snd m)) < length s \<and> reaches (Star a) m t)"
  unfolding reaches_def by (subst in_ms_Star) auto

lemma reaches_LazyStar_unfold:
  "reaches (LazyStar a) (n, s, cs) t \<longleftrightarrow>
     t = s \<or> (\<exists>m \<in> set (ms a (n, s, cs)). length (fst (snd m)) < length s \<and> reaches (LazyStar a) m t)"
  unfolding reaches_def by (subst in_ms_LazyStar) auto

lemma star_sound_aux:
  assumes IH: "\<And>n s cs t. reaches a (n, s, cs) t \<Longrightarrow> \<exists>w \<in> lang a. s = w @ t"
  shows "reaches (Star a) (n, s, cs) t \<Longrightarrow> \<exists>w \<in> star (lang a). s = w @ t"
proof (induction "length s" arbitrary: n s cs rule: less_induct)
  case less
  from less.prems consider "t = s"
    | m where "m \<in> set (ms a (n, s, cs))" "length (fst (snd m)) < length s" "reaches (Star a) m t"
    using reaches_Star_unfold by blast
  then show ?case
  proof cases
    case 1
    then show ?thesis using star_empty by auto
  next
    case 2
    obtain n1 s1 cs1 where m: "m = (n1, s1, cs1)" by (cases m) auto
    from 2(1) m have "reaches a (n, s, cs) s1" by (auto simp: reaches_def)
    then obtain w1 where w1: "w1 \<in> lang a" "s = w1 @ s1" using IH by blast
    from less.hyps[of s1 n1 cs1] 2(2,3) m obtain w2 where w2: "w2 \<in> star (lang a)" "s1 = w2 @ t"
      by auto
    from w1 w2 have "w1 @ w2 \<in> star (lang a)" "s = (w1 @ w2) @ t" by (auto intro: star_step)
    then show ?thesis by blast
  qed
qed

lemma lazystar_sound_aux:
  assumes IH: "\<And>n s cs t. reaches a (n, s, cs) t \<Longrightarrow> \<exists>w \<in> lang a. s = w @ t"
  shows "reaches (LazyStar a) (n, s, cs) t \<Longrightarrow> \<exists>w \<in> star (lang a). s = w @ t"
proof (induction "length s" arbitrary: n s cs rule: less_induct)
  case less
  from less.prems consider "t = s"
    | m where "m \<in> set (ms a (n, s, cs))" "length (fst (snd m)) < length s" "reaches (LazyStar a) m t"
    using reaches_LazyStar_unfold by blast
  then show ?case
  proof cases
    case 1
    then show ?thesis using star_empty by auto
  next
    case 2
    obtain n1 s1 cs1 where m: "m = (n1, s1, cs1)" by (cases m) auto
    from 2(1) m have "reaches a (n, s, cs) s1" by (auto simp: reaches_def)
    then obtain w1 where w1: "w1 \<in> lang a" "s = w1 @ s1" using IH by blast
    from less.hyps[of s1 n1 cs1] 2(2,3) m obtain w2 where w2: "w2 \<in> star (lang a)" "s1 = w2 @ t"
      by auto
    from w1 w2 have "w1 @ w2 \<in> star (lang a)" "s = (w1 @ w2) @ t" by (auto intro: star_step)
    then show ?thesis by blast
  qed
qed

lemma ms_sound:
  "plain r \<Longrightarrow> reaches r (n, s, cs) t \<Longrightarrow> \<exists>w \<in> lang r. s = w @ t"
proof (induction r arbitrary: n s cs t)
  case Eps
  then show ?case by (simp add: reaches_Eps)
next
  case (Cls p)
  then show ?case by (auto simp add: reaches_Cls)
next
  case (Seq a b)
  from Seq.prems obtain m where m: "m \<in> set (ms a (n, s, cs))" "reaches b m t"
    using reaches_Seq by blast
  obtain n1 s1 cs1 where [simp]: "m = (n1, s1, cs1)" by (cases m) auto
  from m(1) have "reaches a (n, s, cs) s1" by (auto intro: reaches_I)
  with Seq.IH(1) Seq.prems(1) obtain w1 where w1: "w1 \<in> lang a" "s = w1 @ s1" by fastforce
  from m(2) Seq.IH(2)[of n1 s1 cs1 t] Seq.prems(1) obtain w2 where w2: "w2 \<in> lang b" "s1 = w2 @ t"
    by auto
  from w1 w2 have "w1 @ w2 \<in> lang (Seq a b)" "s = (w1 @ w2) @ t" by auto
  then show ?case by blast
next
  case (Alt a b)
  from Alt.prems(2) have "reaches a (n, s, cs) t \<or> reaches b (n, s, cs) t"
    by (simp add: reaches_Alt)
  then show ?case using Alt.IH Alt.prems(1) by (metis UnCI lang.simps(4) plain.simps(4))
next
  case (Star a)
  then show ?case using star_sound_aux[of a n s cs t] by simp
next
  case (LazyStar a)
  then show ?case using lazystar_sound_aux[of a n s cs t] by simp
next
  case (Grp k a)
  from Grp.prems have "reaches a (n, s, cs) t" by (simp add: reaches_Grp)
  with Grp show ?case by simp
qed simp_all

lemma star_complete_aux:
  assumes IH: "\<And>n s cs t w. w \<in> lang a \<Longrightarrow> s = w @ t \<Longrightarrow> reaches a (n, s, cs) t"
  shows "w \<in> star (lang a) \<Longrightarrow> reaches (Star a) (n, w @ t, cs) t"
proof (induction arbitrary: n cs rule: star.induct)
  case star_empty
  then show ?case by (simp add: reaches_Star_unfold)
next
  case (star_step u v)
  show ?case
  proof (cases "u = []")
    case True
    then show ?thesis using star_step.IH by simp
  next
    case False
    from IH[OF star_step.hyps(1), of "u @ v @ t" "v @ t" n cs]
    obtain n1 cs1 where m: "(n1, v @ t, cs1) \<in> set (ms a (n, u @ v @ t, cs))"
      by (auto simp: reaches_def)
    have "reaches (Star a) (n1, v @ t, cs1) t" by (rule star_step.IH)
    with m False show ?thesis
      by (subst reaches_Star_unfold) (auto intro!: bexI[of _ "(n1, v @ t, cs1)"])
  qed
qed

lemma lazystar_complete_aux:
  assumes IH: "\<And>n s cs t w. w \<in> lang a \<Longrightarrow> s = w @ t \<Longrightarrow> reaches a (n, s, cs) t"
  shows "w \<in> star (lang a) \<Longrightarrow> reaches (LazyStar a) (n, w @ t, cs) t"
proof (induction arbitrary: n cs rule: star.induct)
  case star_empty
  then show ?case by (simp add: reaches_LazyStar_unfold)
next
  case (star_step u v)
  show ?case
  proof (cases "u = []")
    case True
    then show ?thesis using star_step.IH by simp
  next
    case False
    from IH[OF star_step.hyps(1), of "u @ v @ t" "v @ t" n cs]
    obtain n1 cs1 where m: "(n1, v @ t, cs1) \<in> set (ms a (n, u @ v @ t, cs))"
      by (auto simp: reaches_def)
    have "reaches (LazyStar a) (n1, v @ t, cs1) t" by (rule star_step.IH)
    with m False show ?thesis
      by (subst reaches_LazyStar_unfold) (auto intro!: bexI[of _ "(n1, v @ t, cs1)"])
  qed
qed

lemma ms_complete:
  "plain r \<Longrightarrow> w \<in> lang r \<Longrightarrow> s = w @ t \<Longrightarrow> reaches r (n, s, cs) t"
proof (induction r arbitrary: n s cs t w)
  case Eps
  then show ?case by (simp add: reaches_Eps)
next
  case (Cls p)
  then show ?case by (auto simp add: reaches_Cls)
next
  case (Seq a b)
  from Seq.prems obtain u v where uv: "w = u @ v" "u \<in> lang a" "v \<in> lang b" by auto
  have "reaches a (n, s, cs) (v @ t)"
    using Seq.IH(1)[of u s "v @ t" n cs] Seq.prems uv by simp
  then obtain n1 cs1 where m: "(n1, v @ t, cs1) \<in> set (ms a (n, s, cs))"
    by (auto simp: reaches_def)
  have "reaches b (n1, v @ t, cs1) t"
    using Seq.IH(2)[of v "v @ t" t n1 cs1] Seq.prems uv by simp
  with m show ?case by (subst reaches_Seq) blast
next
  case (Alt a b)
  from Alt.prems(2) have "w \<in> lang a \<or> w \<in> lang b" by simp
  then show ?case using Alt.IH Alt.prems by (auto simp add: reaches_Alt)
next
  case (Star a)
  then show ?case using star_complete_aux[of a w n t cs] by simp
next
  case (LazyStar a)
  then show ?case using lazystar_complete_aux[of a w n t cs] by simp
next
  case (Grp k a)
  from Grp have "reaches a (n, s, cs) t" by simp
  then show ?case by (simp add: reaches_Grp)
qed simp_all

lemma ms_lang: "plain r \<Longrightarrow> reaches r (n, s, cs) t \<longleftrightarrow> (\<exists>w \<in> lang r. s = w @ t)"
  using ms_sound ms_complete by blast

subsection \<open>Anchored tests\<close>

text \<open>
  A test with \<open>^\<close> in front can only match at position 0, and with \<open>$\<close> at the end it
  asks whether the whole line is a word of the language in between.
\<close>

lemma concat_map_concat:
  "concat (map f (concat (map g xs))) = concat (map (\<lambda>x. concat (map f (g x))) xs)"
  by (induction xs) simp_all

lemma ms_Seq_fun: "ms (Seq a b) = (\<lambda>st. concat (map (ms b) (ms a st)))"
  by (rule ext) simp

lemma ms_Seq_assoc: "ms (Seq a (Seq b c)) = ms (Seq (Seq a b) c)"
  by (rule ext) (simp add: concat_map_concat ms_Seq_fun[of b c])

lemma ms_Seq_cong: "ms b = ms b' \<Longrightarrow> ms (Seq a b) = ms (Seq a b')"
  by (rule ext) simp

lemma ms_Seq_assoc3: "ms (Seq a (Seq b (Seq c d))) = ms (Seq (Seq a (Seq b c)) d)"
  using ms_Seq_assoc[of a "Seq b c" d] ms_Seq_cong[OF ms_Seq_assoc[of b c d], of a] by simp

lemma test_cong: "ms r = ms r' \<Longrightarrow> test r s = test r' s"
proof -
  assume e: "ms r = ms r'"
  have x: "\<And>n s. execAt r n s = execAt r' n s" by (simp add: execAt_def e)
  have "\<And>n. search r n s = search r' n s" by (induction s) (simp_all add: x split: option.splits)
  then show ?thesis by (simp add: test_def match_def)
qed

lemma execAt_Bol_pos: "n > 0 \<Longrightarrow> execAt (Seq Bol r) n s = None"
  by (simp add: execAt_def)

lemma search_Bol_pos: "n > 0 \<Longrightarrow> search (Seq Bol r) n s = None"
  by (induction s arbitrary: n) (simp_all add: execAt_Bol_pos)

lemma search_Bol: "search (Seq Bol r) 0 s = execAt (Seq Bol r) 0 s"
  by (cases s) (simp_all add: search_Bol_pos split: option.splits)

lemma match_Bol_None: "match (Seq Bol r) s = None \<longleftrightarrow> ms r (0, s, []) = []"
  by (simp add: match_def search_Bol execAt_def split: list.splits)

lemma test_Bol: "test (Seq Bol r) s \<longleftrightarrow> ms r (0, s, []) \<noteq> []"
  by (simp add: test_def match_Bol_None)

lemma ms_Eol_end:
  "ms (Seq r Eol) st \<noteq> [] \<longleftrightarrow> reaches r st []"
proof -
  have "ms (Seq r Eol) st \<noteq> [] \<longleftrightarrow> (\<exists>m \<in> set (ms r st). ms Eol m \<noteq> [])"
    by (auto simp add: concat_eq_Nil_conv)
  also have "\<dots> \<longleftrightarrow> (\<exists>m \<in> set (ms r st). fst (snd m) = [])"
  proof (rule bex_cong)
    fix m show "(ms Eol m \<noteq> []) = (fst (snd m) = [])" by (cases m) simp
  qed simp
  also have "\<dots> \<longleftrightarrow> reaches r st []"
    by (force simp add: reaches_def)
  finally show ?thesis .
qed

lemma test_whole: "plain r \<Longrightarrow> test (Seq Bol (Seq r Eol)) s \<longleftrightarrow> s \<in> lang r"
  by (simp add: test_Bol ms_Eol_end ms_lang del: ms.simps)

lemma star_Cls: "star {[c] | c. p c} = {w. \<forall>c \<in> set w. p c}"
proof (intro set_eqI iffI)
  fix w assume "w \<in> star {[c] | c. p c}"
  then show "w \<in> {w. \<forall>c \<in> set w. p c}" by induction auto
next
  fix w assume "w \<in> {w. \<forall>c \<in> set w. p c}"
  then show "w \<in> star {[c] | c. p c}"
  proof (induction w)
    case Nil
    show ?case by (rule star_empty)
  next
    case (Cons a w)
    then have "[a] \<in> {[c] | c. p c}" "w \<in> star {[c] | c. p c}" by auto
    then have "[a] @ w \<in> star {[c] | c. p c}" by (rule star_step)
    then show ?case by simp
  qed
qed

lemma lang_Star_Cls: "lang (Star (Cls p)) = {w. \<forall>c \<in> set w. p c}"
  by (simp add: star_Cls)

lemma lang_Star_Grp_Cls: "lang (Star (Grp k (Cls p))) = {w. \<forall>c \<in> set w. p c}"
  by (simp add: star_Cls)

lemma lang_Rep_Cls: "lang (Rep k (Cls p)) = {w. length w = k \<and> (\<forall>c \<in> set w. p c)}"
proof (induction k)
  case 0
  then show ?case by auto
next
  case (Suc k)
  show ?case
  proof (intro set_eqI iffI)
    fix w assume "w \<in> lang (Rep (Suc k) (Cls p))"
    then show "w \<in> {w. length w = Suc k \<and> (\<forall>c \<in> set w. p c)}" using Suc by auto
  next
    fix w assume "w \<in> {w. length w = Suc k \<and> (\<forall>c \<in> set w. p c)}"
    then obtain c v where cv: "w = [c] @ v" "p c" "length v = k" "\<forall>c \<in> set v. p c"
      by (cases w) auto
    then have "[c] \<in> lang (Cls p)" "v \<in> lang (Rep k (Cls p))" using Suc by auto
    then have "[c] @ v \<in> lang (Seq (Cls p) (Rep k (Cls p)))" unfolding lang.simps by blast
    then show "w \<in> lang (Rep (Suc k) (Cls p))" using cv(1) by simp
  qed
qed

lemma lang_Rep_Grp_Cls: "lang (Rep k (Grp j (Cls p))) = lang (Rep k (Cls p))"
  by (induction k) simp_all

lemma lang_RepMin_Cls:
  "lang (RepMin k (Cls p)) = {w. k \<le> length w \<and> (\<forall>c \<in> set w. p c)}"
proof (intro set_eqI iffI)
  fix w assume "w \<in> lang (RepMin k (Cls p))"
  then show "w \<in> {w. k \<le> length w \<and> (\<forall>c \<in> set w. p c)}"
    by (auto simp add: RepMin_def lang_Rep_Cls star_Cls)
next
  fix w assume "w \<in> {w. k \<le> length w \<and> (\<forall>c \<in> set w. p c)}"
  then have w: "k \<le> length w" "\<forall>c \<in> set w. p c" by auto
  have "take k w \<in> lang (Rep k (Cls p))" using w
    by (auto simp add: lang_Rep_Cls dest: in_set_takeD)
  moreover have "drop k w \<in> lang (Star (Cls p))" using w
    by (auto simp add: star_Cls dest: in_set_dropD)
  ultimately have "take k w @ drop k w \<in> lang (RepMin k (Cls p))"
    unfolding RepMin_def lang.simps by blast
  then show "w \<in> lang (RepMin k (Cls p))" by simp
qed

lemma lang_RepMin_Grp_Cls: "lang (RepMin k (Grp j (Cls p))) = lang (RepMin k (Cls p))"
  by (simp add: RepMin_def lang_Rep_Grp_Cls)

lemma plain_Rep: "plain r \<Longrightarrow> plain (Rep k r)"
  by (induction k) simp_all

lemma plain_RepMin: "plain r \<Longrightarrow> plain (RepMin k r)"
  by (simp add: RepMin_def plain_Rep)

lemma test_whole3:
  assumes "plain a" "plain b" "plain c"
  shows "test (Seq Bol (Seq a (Seq b (Seq c Eol)))) s \<longleftrightarrow> s \<in> lang (Seq a (Seq b c))"
proof -
  have "ms (Seq Bol (Seq a (Seq b (Seq c Eol)))) = ms (Seq Bol (Seq (Seq a (Seq b c)) Eol))"
    by (rule ms_Seq_cong) (rule ms_Seq_assoc3)
  then have "test (Seq Bol (Seq a (Seq b (Seq c Eol)))) s = test (Seq Bol (Seq (Seq a (Seq b c)) Eol)) s"
    by (rule test_cong)
  also have "\<dots> \<longleftrightarrow> s \<in> lang (Seq a (Seq b c))"
    using assms by (intro test_whole) simp
  finally show ?thesis .
qed

section \<open>The reset at horizontal rules\<close>

lemma resetAtRule_step:
  "resetAtRule tag (d, st) a =
     (if a < line tag \<and> (st = [] \<or> a > snd (hd st)) then (0, []) else (d, st))"
  by (simp add: resetAtRule_def)

lemma resetAtRule_done: "foldl (resetAtRule tag) (0, []) hs = (0, [])"
  by (induction hs) (simp_all add: resetAtRule_step)

lemma resetAtRule_hits:
  "h \<in> set hs \<Longrightarrow> h < line tag \<Longrightarrow> (st = [] \<or> h > snd (hd st)) \<Longrightarrow>
   foldl (resetAtRule tag) (d, st) hs = (0, [])"
proof (induction hs)
  case Nil
  then show ?case by simp
next
  case (Cons a hs)
  show ?case
  proof (cases "a < line tag \<and> (st = [] \<or> a > snd (hd st))")
    case True
    then have "resetAtRule tag (d, st) a = (0, [])" by (auto simp add: resetAtRule_step)
    then show ?thesis by (simp add: resetAtRule_done)
  next
    case False
    then have s: "resetAtRule tag (d, st) a = (d, st)" by (auto simp add: resetAtRule_step)
    from False Cons.prems have "h \<in> set hs" by auto
    then have "foldl (resetAtRule tag) (d, st) hs = (0, [])"
      using Cons.IH Cons.prems by blast
    then show ?thesis by (simp add: s)
  qed
qed








section \<open>The structure of the extractor's result\<close>


lemma fenceFlag_Nil [simp]: "fenceFlag r b [] = b"
  by (simp add: fenceFlag_def)

lemma fenceFlag_Cons:
  "fenceFlag r b (l # ls) = fenceFlag r (if match r l \<noteq> None then \<not> b else b) ls"
  by (simp add: fenceFlag_def)

lemma fenceFlag_append:
  "fenceFlag r b (xs @ ys) = fenceFlag r (fenceFlag r b xs) ys"
  by (simp add: fenceFlag_def)

lemma parseLines_tags:
  "xmlTags (parseLines i b ls acc) =
     xmlTags acc @ concat (map (\<lambda>(j, l). lineTags j l) (scannedLines i b ls))"
  by (induction ls arbitrary: i b acc) simp_all

lemma parseLines_rules_subset:
  "set (horizontalRules (parseLines i b ls acc)) \<subseteq> set (horizontalRules acc) \<union> {i..<i + length ls}"
  by (induction ls arbitrary: i b acc) (auto simp add: Suc_le_eq; fastforce)+

lemma scannedLines_lower: "(j, l) \<in> set (scannedLines i b ls) \<Longrightarrow> i \<le> j"
proof (induction ls arbitrary: i b)
  case Nil
  then show ?case by simp
next
  case (Cons a ls)
  from Cons.prems have "(j, l) = (i, a) \<or> (\<exists>b'. (j, l) \<in> set (scannedLines (Suc i) b' ls))"
    by (auto split: if_splits)
  then show ?case using Cons.IH by (auto dest: Suc_leD)
qed

lemma scannedLines_iff:
  "(j, l) \<in> set (scannedLines i b ls) \<longleftrightarrow>
     i \<le> j \<and> j < i + length ls \<and> l = ls ! (j - i) \<and>
     \<not> fenceFlag codeBlockRegex b (take (j - i) ls) \<and>
     match codeBlockRegex l = None \<and> \<not> test horizontalRuleRegex l"
proof (induction ls arbitrary: i b)
  case Nil
  then show ?case by simp
next
  case (Cons a ls)
  have step: "\<And>b'. (j, l) \<in> set (scannedLines (Suc i) b' ls) \<longleftrightarrow>
     Suc i \<le> j \<and> j < Suc i + length ls \<and> l = ls ! (j - Suc i) \<and>
     \<not> fenceFlag codeBlockRegex b' (take (j - Suc i) ls) \<and>
     match codeBlockRegex l = None \<and> \<not> test horizontalRuleRegex l"
    by (rule Cons.IH)
  show ?case
  proof (cases "j = i")
    case True
    have no: "\<And>b'. (j, l) \<notin> set (scannedLines (Suc i) b' ls)"
      using scannedLines_lower[of j l "Suc i" _ ls] True by auto
    have "(j, l) \<in> set (scannedLines i b (a # ls)) \<longleftrightarrow>
          match codeBlockRegex a = None \<and> \<not> b \<and> \<not> test horizontalRuleRegex a \<and> l = a"
      using no True by auto
    then show ?thesis using True by auto
  next
    case False
    show ?thesis
    proof (cases "i < j")
      case True
      then obtain k where k: "j - i = Suc k" "j - Suc i = k" by (cases "j - i") auto
      have "(j, l) \<in> set (scannedLines i b (a # ls)) \<longleftrightarrow>
            (j, l) \<in> set (scannedLines (Suc i) (if match codeBlockRegex a \<noteq> None then \<not> b else b) ls)"
        using True by auto
      then show ?thesis using True k by (simp add: step fenceFlag_Cons)
    next
      case False
      with \<open>j \<noteq> i\<close> have "j < i" by simp
      then have "(j, l) \<notin> set (scannedLines i b (a # ls))"
        using scannedLines_lower[of j l i b "a # ls"] by linarith
      then show ?thesis using \<open>j < i\<close> by simp
    qed
  qed
qed

lemma scannedLines_sorted:
  "sorted_wrt (<) (map fst (scannedLines i b ls))"
proof (induction ls arbitrary: i b)
  case Nil
  then show ?case by simp
next
  case (Cons a ls)
  have "\<And>b' x. x \<in> set (scannedLines (Suc i) b' ls) \<Longrightarrow> i < fst x"
    using scannedLines_iff[of _ _ "Suc i" _ ls] by (metis Suc_le_lessD prod.collapse)
  then show ?case using Cons.IH by auto
qed

section \<open>The transformer's loop, line by line\<close>

lemma convertLines_acc:
  "convertLines S i b ls result =
     (case convertLines S i b ls [] of Inl e \<Rightarrow> Inl e | Inr out \<Rightarrow> Inr (result @ out))"
proof (induction ls arbitrary: i b result)
  case Nil
  then show ?case by simp
next
  case (Cons l ls)
  show ?case
  proof (cases "convertLine S i b l")
    case (Inl e)
    then show ?thesis by simp
  next
    case (Inr p)
    obtain pushed b' where p: "p = (pushed, b')" by (cases p)
    have a: "convertLines S (Suc i) b' ls (result @ pushed) =
          (case convertLines S (Suc i) b' ls [] of Inl e \<Rightarrow> Inl e | Inr out \<Rightarrow> Inr ((result @ pushed) @ out))"
      by (rule Cons.IH)
    have b: "convertLines S (Suc i) b' ls pushed =
          (case convertLines S (Suc i) b' ls [] of Inl e \<Rightarrow> Inl e | Inr out \<Rightarrow> Inr (pushed @ out))"
      by (rule Cons.IH)
    show ?thesis using Inr p a b by (simp split: sum.splits)
  qed
qed

lemma convertLine_flag:
  "convertLine S i b l = Inr (pushed, b') \<Longrightarrow>
     b' = (if match convertCodeBlockRegex l \<noteq> None then \<not> b else b)"
  by (auto simp add: convertLine_def split: if_splits option.splits sum.splits)

lemma convertLines_append:
  "convertLines S i b (xs @ ys) [] =
     (case convertLines S i b xs [] of
        Inl e \<Rightarrow> Inl e
      | Inr out1 \<Rightarrow>
          (case convertLines S (i + length xs) (fenceFlag convertCodeBlockRegex b xs) ys [] of
             Inl e \<Rightarrow> Inl e
           | Inr out2 \<Rightarrow> Inr (out1 @ out2)))"
proof (induction xs arbitrary: i b)
  case Nil
  then show ?case by (simp split: sum.splits)
next
  case (Cons l xs)
  show ?case
  proof (cases "convertLine S i b l")
    case (Inl e)
    then show ?thesis by simp
  next
    case (Inr p)
    obtain pushed b' where p: "p = (pushed, b')" by (cases p)
    have fl: "b' = (if match convertCodeBlockRegex l \<noteq> None then \<not> b else b)"
      using convertLine_flag Inr p by blast
    let ?A = "convertLines S (Suc i) b' xs []"
    let ?B = "convertLines S (Suc i + length xs) (fenceFlag convertCodeBlockRegex b' xs) ys []"
    have ih: "convertLines S (Suc i) b' (xs @ ys) [] =
      (case ?A of Inl e \<Rightarrow> Inl e
       | Inr out1 \<Rightarrow> (case ?B of Inl e \<Rightarrow> Inl e | Inr out2 \<Rightarrow> Inr (out1 @ out2)))"
      by (rule Cons.IH)
    have l1: "convertLines S i b ((l # xs) @ ys) [] =
        (case convertLines S (Suc i) b' (xs @ ys) [] of Inl e \<Rightarrow> Inl e | Inr out \<Rightarrow> Inr (pushed @ out))"
      using Inr p convertLines_acc[of S "Suc i" b' "xs @ ys" pushed] by simp
    have l2: "convertLines S i b (l # xs) [] =
        (case ?A of Inl e \<Rightarrow> Inl e | Inr out \<Rightarrow> Inr (pushed @ out))"
      using Inr p convertLines_acc[of S "Suc i" b' xs pushed] by simp
    have ff: "fenceFlag convertCodeBlockRegex b (l # xs) = fenceFlag convertCodeBlockRegex b' xs"
      using fl by (simp add: fenceFlag_Cons)
    have ix: "i + length (l # xs) = Suc i + length xs" by simp
    show ?thesis
      unfolding l1 l2 ff ix ih by (cases ?A; cases ?B) simp_all
  qed
qed

section \<open>Facts about the depth resolution\<close>

lemma lineTags_line: "t \<in> set (lineTags j l) \<Longrightarrow> line t = j"
  by (auto simp add: lineTags_def Let_def selfClosingTag_def closingTag_def openingTag_def)

lemma lineTags_closing: "t \<in> set (lineTags j l) \<Longrightarrow> isClosing t \<Longrightarrow> \<not> isOpening t"
  by (auto simp add: lineTags_def Let_def selfClosingTag_def closingTag_def openingTag_def)

lemma parse_tag_scanned:
  "t \<in> set (xmlTags (parseDocumentText text')) \<Longrightarrow>
   (line t, splitLines text' ! line t) \<in> set (scannedLines 0 False (splitLines text')) \<and>
   t \<in> set (lineTags (line t) (splitLines text' ! line t))"
proof -
  assume "t \<in> set (xmlTags (parseDocumentText text'))"
  then obtain j l where jl: "(j, l) \<in> set (scannedLines 0 False (splitLines text'))" "t \<in> set (lineTags j l)"
    by (auto simp add: parseDocumentText_def parseLines_tags)
  then have "line t = j" by (simp add: lineTags_line)
  moreover from jl(1) have "l = splitLines text' ! j" by (simp add: scannedLines_iff)
  ultimately show ?thesis using jl by simp
qed

lemma resetAtRules_fields [simp]:
  "tagEndLines (resetAtRules hr t S) = tagEndLines S"
  "tagDepthMap (resetAtRules hr t S) = tagDepthMap S"
  "tagInfoMap (resetAtRules hr t S) = tagInfoMap S"
  by (simp_all add: resetAtRules_def split: prod.splits)

lemma tagEndLines_handleTag:
  "tagEndLines (handleTag t S) =
     (if \<not> isOpening t \<and> isClosing t then insert (line t) (tagEndLines S) else tagEndLines S)"
  by (simp add: handleTag_def split: option.splits)

lemma tagEndLines_fold:
  "tagEndLines (foldl (tagStep hr) S ts) =
     tagEndLines S \<union> line ` {t \<in> set ts. \<not> isOpening t \<and> isClosing t}"
  by (induction ts arbitrary: S) (auto simp add: tagStep_def tagEndLines_handleTag)

lemma foldl_resetAtRule_cases:
  "foldl (resetAtRule t) (d, st) hs = (d, st) \<or> foldl (resetAtRule t) (d, st) hs = (0, [])"
proof (induction hs arbitrary: d st)
  case Nil
  then show ?case by simp
next
  case (Cons a hs)
  have "resetAtRule t (d, st) a = (d, st) \<or> resetAtRule t (d, st) a = (0, [])"
    by (simp add: resetAtRule_def)
  then show ?case using Cons.IH[of d st] Cons.IH[of 0 "[]"] by auto
qed

lemma resetAtRules_cases:
  "resetAtRules hr t S = S \<or> resetAtRules hr t S = S\<lparr>currentDepth := 0, tagStack := []\<rparr>"
  using foldl_resetAtRule_cases[of t "currentDepth S" "tagStack S" hr]
  by (auto simp add: resetAtRules_def)

lemma depthInv_reset: "depthInv S \<Longrightarrow> depthInv (resetAtRules hr t S)"
  using resetAtRules_cases[of hr t S] by (auto simp add: depthInv_def)

lemma depthInv_handle: "depthInv S \<Longrightarrow> depthInv (handleTag t S)"
  by (auto simp add: depthInv_def handleTag_def split: option.splits if_splits)

lemma depthInv_fold: "depthInv S \<Longrightarrow> depthInv (foldl (tagStep hr) S ts)"
  by (induction ts arbitrary: S) (simp_all add: tagStep_def depthInv_reset depthInv_handle)

lemma depthInv_resolve: "depthInv (resolveDepths structure)"
  unfolding resolveDepths_def by (rule depthInv_fold) (simp add: depthInv_def initialDepthState_def)

lemma headerLevel_bounds: "0 \<le> d \<Longrightarrow> 2 \<le> headerLevel d \<and> headerLevel d \<le> 6"
  by (simp add: headerLevel_def)

lemma convertLine_total:
  "depthInv S \<Longrightarrow> \<exists>pushed. convertLine S i b l =
     Inr (pushed, if match convertCodeBlockRegex l \<noteq> None then \<not> b else b)"
proof -
  assume inv: "depthInv S"
  show ?thesis
  proof (cases "tagDepthMap S i")
    case None
    then show ?thesis by (simp add: convertLine_def)
  next
    case (Some d)
    then have d: "0 \<le> d" using inv by (auto simp add: depthInv_def)
    have "i \<in> dom (tagInfoMap S)" using Some inv by (auto simp add: depthInv_def)
    then obtain info where info: "tagInfoMap S i = Some info" by blast
    obtain nm attrs where [simp]: "info = (nm, attrs)" by (cases info)
    have "\<exists>p. tagLine d (tagInfoMap S i) l = Inr p"
      using info headerLevel_bounds[OF d] by (simp add: tagLine_def)
    then show ?thesis using Some by (auto simp add: convertLine_def)
  qed
qed

lemma convertLines_total: "depthInv S \<Longrightarrow> \<exists>out. convertLines S i b ls result = Inr out"
proof (induction ls arbitrary: i b result)
  case Nil
  then show ?case by simp
next
  case (Cons l ls)
  from convertLine_total[OF Cons.prems, of i b l] obtain pushed b' where
    "convertLine S i b l = Inr (pushed, b')" by blast
  then show ?case using Cons.IH[OF Cons.prems] by simp
qed

lemma tag_flags [simp]:
  "isOpening (selfClosingTag i ind m) = False" "isClosing (selfClosingTag i ind m) = False"
  "isSelfClosing (selfClosingTag i ind m) = True" "line (selfClosingTag i ind m) = i"
  "isOpening (closingTag i ind m) = False" "isClosing (closingTag i ind m) = True"
  "isSelfClosing (closingTag i ind m) = False" "line (closingTag i ind m) = i"
  "isOpening (openingTag i ind m) = True" "isClosing (openingTag i ind m) = False"
  "isSelfClosing (openingTag i ind m) = False" "line (openingTag i ind m) = i"
  by (simp_all add: selfClosingTag_def closingTag_def openingTag_def)

lemma lineTags_split: "lineTags i l = selfTags i l @ closeTags i l @ openTags i l"
  by (simp add: lineTags_def Let_def selfTags_def closeTags_def openTags_def)

lemma selfTags_flags:
  "t \<in> set (selfTags i l) \<Longrightarrow> isSelfClosing t \<and> \<not> isOpening t \<and> \<not> isClosing t \<and> line t = i"
  by (auto simp add: selfTags_def)

lemma closeTags_flags:
  "t \<in> set (closeTags i l) \<Longrightarrow> \<not> isSelfClosing t \<and> \<not> isOpening t \<and> isClosing t \<and> line t = i"
  by (auto simp add: closeTags_def)

lemma openTags_flags:
  "t \<in> set (openTags i l) \<Longrightarrow> \<not> isSelfClosing t \<and> isOpening t \<and> \<not> isClosing t \<and> line t = i"
  by (auto simp add: openTags_def)



lemma parse_tags_split:
  assumes "(i, l) \<in> set (scannedLines 0 False (splitLines text'))"
  shows "\<exists>pre post. xmlTags (parseDocumentText text') = pre @ lineTags i l @ post \<and>
           (\<forall>t \<in> set pre. line t < i) \<and> (\<forall>t \<in> set post. i < line t)"
proof -
  let ?sc = "scannedLines 0 False (splitLines text')"
  from assms obtain A B where ab: "?sc = A @ (i, l) # B" by (meson split_list)
  have srt: "sorted_wrt (<) (map fst ?sc)" by (rule scannedLines_sorted)
  have A: "\<forall>x \<in> set A. fst x < i" and B: "\<forall>x \<in> set B. i < fst x"
    using srt unfolding ab by (auto simp add: sorted_wrt_append)
  let ?f = "\<lambda>(j, l). lineTags j l"
  have tags: "xmlTags (parseDocumentText text') = concat (map ?f A) @ lineTags i l @ concat (map ?f B)"
    by (simp add: parseDocumentText_def parseLines_tags ab)
  have "\<forall>t \<in> set (concat (map ?f A)). line t < i"
  proof
    fix t assume "t \<in> set (concat (map ?f A))"
    then obtain x where x: "x \<in> set A" "t \<in> set (?f x)" by auto
    obtain j l' where [simp]: "x = (j, l')" by (cases x)
    from x(2) have "line t = j" by (simp add: lineTags_line)
    then show "line t < i" using A x(1) by auto
  qed
  moreover have "\<forall>t \<in> set (concat (map ?f B)). i < line t"
  proof
    fix t assume "t \<in> set (concat (map ?f B))"
    then obtain x where x: "x \<in> set B" "t \<in> set (?f x)" by auto
    obtain j l' where [simp]: "x = (j, l')" by (cases x)
    from x(2) have "line t = j" by (simp add: lineTags_line)
    then show "i < line t" using B x(1) by auto
  qed
  ultimately show ?thesis using tags by blast
qed





lemma foldl_resetAtRule_none:
  "\<forall>h \<in> set hs. \<not> (h < line t \<and> (st = [] \<or> h > snd (hd st))) \<Longrightarrow>
     foldl (resetAtRule t) (d, st) hs = (d, st)"
  by (induction hs) (auto simp add: resetAtRule_step)

lemma foldl_resetAtRule_some:
  "\<exists>h \<in> set hs. h < line t \<and> (st = [] \<or> h > snd (hd st)) \<Longrightarrow>
     foldl (resetAtRule t) (d, st) hs = (0, [])"
  using resetAtRule_hits by blast











section \<open>The horizontal-rule classifier\<close>

lemma horizontalRule_lang:
  "test horizontalRuleRegex s \<longleftrightarrow>
     (\<exists>a b c. s = a @ b @ c \<and> (\<forall>x \<in> set a. isSpace x) \<and> 3 \<le> length b \<and>
        (\<forall>x \<in> set b. isRuleChar x) \<and> (\<forall>x \<in> set c. isSpace x))"
proof -
  have "test horizontalRuleRegex s \<longleftrightarrow>
        s \<in> lang (Seq (Star (Cls isSpace)) (Seq (RepMin 3 (Grp 1 (Cls isRuleChar))) (Star (Cls isSpace))))"
    unfolding horizontalRuleRegex_def by (rule test_whole3) (simp_all add: plain_RepMin)
  also have "\<dots> \<longleftrightarrow> (\<exists>a b c. s = a @ b @ c \<and> (\<forall>x \<in> set a. isSpace x) \<and> 3 \<le> length b \<and>
        (\<forall>x \<in> set b. isRuleChar x) \<and> (\<forall>x \<in> set c. isSpace x))"
    unfolding lang.simps(3) lang_Star_Cls lang_RepMin_Grp_Cls lang_RepMin_Cls by blast
  finally show ?thesis .
qed

text \<open>
  Claim C4, as amended: \<open>horizontalRuleRegex\<close> accepts a line exactly when the line is
  white space, then three or more characters each of which is \<open>-\<close>, \<open>*\<close> or \<open>_\<close> (they
  need not be the same character, and no white space may stand between them), then
  white space.
\<close>

theorem C4_horizontal_rule_iff:
  "test horizontalRuleRegex s \<longleftrightarrow>
     (\<exists>a b c. s = a @ b @ c \<and> (\<forall>x \<in> set a. isSpace x) \<and> 3 \<le> length b \<and>
        (\<forall>x \<in> set b. isRuleChar x) \<and> (\<forall>x \<in> set c. isSpace x))"
  by (rule horizontalRule_lang)

text \<open>The theorem at two lines: an indented rule, and a run of mixed characters.\<close>

theorem C4_horizontal_rule_witness: "test horizontalRuleRegex '' ---'' \<and> test horizontalRuleRegex ''-*_''"
proof -
  have a: "\<exists>a b c. '' ---'' = a @ b @ c \<and> (\<forall>x \<in> set a. isSpace x) \<and> 3 \<le> length b \<and>
        (\<forall>x \<in> set b. isRuleChar x) \<and> (\<forall>x \<in> set c. isSpace x)"
    by (rule exI[of _ "'' ''"], rule exI[of _ "''---''"], rule exI[of _ "[]"])
       (simp add: isSpace_def isRuleChar_def code_def)
  have b: "\<exists>a b c. ''-*_'' = a @ b @ c \<and> (\<forall>x \<in> set a. isSpace x) \<and> 3 \<le> length b \<and>
        (\<forall>x \<in> set b. isRuleChar x) \<and> (\<forall>x \<in> set c. isSpace x)"
    by (rule exI[of _ "[]"], rule exI[of _ "''-*_''"], rule exI[of _ "[]"])
       (simp add: isSpace_def isRuleChar_def code_def)
  show ?thesis using a b C4_horizontal_rule_iff[of "'' ---''"] C4_horizontal_rule_iff[of "''-*_''"] by (simp only: simp_thms)
qed

text \<open>
  The claim as stated fails: \<open>- - -\<close> (with spaces between) is rejected, and the mixed
  run \<open>-*_\<close> is accepted; \<open>--\<close> is rejected and \<open>---\<close> accepted, as the claim says.
\<close>

theorem C4_spaced_and_mixed_runs: "\<not> test horizontalRuleRegex ''- - -'' \<and> test horizontalRuleRegex ''-*_'' \<and>
  \<not> test horizontalRuleRegex ''--'' \<and> test horizontalRuleRegex ''---''"
  by code_simp

section \<open>Lines inside fenced code blocks\<close>

text \<open>
  Both loops leave a line alone once their flag \<open>inCodeBlock\<close> is set and the line is no
  fence line for them: the extractor records nothing for it, the transformer pushes it
  unchanged.
\<close>

lemma parseLines_in_code_block:
  "match codeBlockRegex l = None \<Longrightarrow> parseLines i True (l # rest) acc = parseLines (Suc i) True rest acc"
  by simp

lemma extractor_records_no_tag_in_code_block:
  assumes "fenceFlag codeBlockRegex False (take i (splitLines text'))"
  shows "\<forall>t \<in> set (xmlTags (parseDocumentText text')). line t \<noteq> i"
proof
  fix t assume "t \<in> set (xmlTags (parseDocumentText text'))"
  then have "(line t, splitLines text' ! line t) \<in> set (scannedLines 0 False (splitLines text'))"
    by (simp add: parse_tag_scanned)
  then have "\<not> fenceFlag codeBlockRegex False (take (line t) (splitLines text'))"
    by (simp add: scannedLines_iff)
  then show "line t \<noteq> i" using assms by auto
qed

lemma convertLine_in_code_block:
  "match convertCodeBlockRegex l = None \<Longrightarrow> convertLine S i True l = Inr ([l], True)"
  by (simp add: convertLine_def)

text \<open>
  Claim C1: a line strictly inside a fenced code block is emitted unchanged by the
  transformer and contributes nothing to the extractor's result.  The two loops do not
  recognise the same fence lines: the extractor tests \<open>/^(\s*)(`{3,}|~{3,})/\<close>, the
  transformer \<open>/^(\s*)(`{3,}|~{3,})(.*)$/\<close>, and the dot does not match a carriage
  return (nor the other line terminators that \<open>split(/\r?\n/)\<close> leaves inside a line).
  For the three lines \<open>```\rx\<close>, \<open><a>\<close>, \<open>```\<close> the extractor opens a block at the first
  line and records no tag, but the transformer does not see the first line as a fence,
  treats \<open><a>\<close> as a content line that consists of a stray tag, and drops it.
\<close>

theorem C1_fence_line_with_carriage_return:
  "splitLines (''```'' @ [CHR 0x0D] @ ''x\<newline><a>\<newline>```'') = [''```'' @ [CHR 0x0D] @ ''x'', ''<a>'', ''```''] \<and>
   match codeBlockRegex (''```'' @ [CHR 0x0D] @ ''x'') \<noteq> None \<and>
   match convertCodeBlockRegex (''```'' @ [CHR 0x0D] @ ''x'') = None \<and>
   fenceFlag codeBlockRegex False [''```'' @ [CHR 0x0D] @ ''x''] \<and>
   xmlTags (parseDocumentText (''```'' @ [CHR 0x0D] @ ''x\<newline><a>\<newline>```'')) = [] \<and>
   convertLine (resolveDepths (parseDocumentText (''```'' @ [CHR 0x0D] @ ''x\<newline><a>\<newline>```''))) 1 False ''<a>''
     = Inr ([], False) \<and>
   convertToMarkdown (''```'' @ [CHR 0x0D] @ ''x\<newline><a>\<newline>```'') = Inr (''```'' @ [CHR 0x0D] @ ''x\<newline>```'')"
  by code_simp

section \<open>Fences that do not match the opening fence\<close>

lemma lang_Rep_cong: "lang r = lang r' \<Longrightarrow> lang (Rep k r) = lang (Rep k r')"
  by (induction k) simp_all

lemma lang_RepMin_cong: "lang r = lang r' \<Longrightarrow> lang (RepMin k r) = lang (RepMin k r')"
  by (simp add: RepMin_def lang_Rep_cong[of r r'])

lemma lang_Lit_single: "lang (Lit [c]) = lang (Cls (isChar c))"
  by auto

lemma plain_Lit: "plain (Lit s)"
  by (induction s) simp_all

lemma all_isChar_replicate: "(\<forall>x \<in> set w. isChar c x) \<Longrightarrow> w = replicate (length w) c"
  by (induction w) (simp_all add: isChar_def)

lemma closingFence_lang:
  assumes "match (closingFenceRegex [c] n) l \<noteq> None"
  shows "\<exists>a k b. l = a @ replicate k c @ b \<and> n \<le> k \<and> (\<forall>x \<in> set a. isSpace x) \<and> (\<forall>x \<in> set b. isSpace x)"
proof -
  have "test (closingFenceRegex [c] n) l" using assms by (simp add: test_def)
  then have "l \<in> lang (Seq (Star (Cls isSpace)) (Seq (RepMin n (Lit [c])) (Star (Cls isSpace))))"
    unfolding closingFenceRegex_def
    by (subst (asm) test_whole3) (simp_all add: plain_RepMin plain_Lit del: Lit.simps)
  then obtain a w b where awb: "l = a @ w @ b" "a \<in> lang (Star (Cls isSpace))"
     "w \<in> lang (RepMin n (Lit [c]))" "b \<in> lang (Star (Cls isSpace))"
    unfolding lang.simps(3) by blast
  from awb(3) have "w \<in> lang (RepMin n (Cls (isChar c)))"
    using lang_RepMin_cong[OF lang_Lit_single, of n c] by simp
  then have w: "n \<le> length w" "\<forall>x \<in> set w. isChar c x" by (simp_all add: lang_RepMin_Cls)
  then have "w = replicate (length w) c" using all_isChar_replicate by blast
  then have "l = a @ replicate (length w) c @ b" using awb(1) by simp
  moreover have "\<forall>x \<in> set a. isSpace x" "\<forall>x \<in> set b. isSpace x"
    using awb(2,4) unfolding lang_Star_Cls by simp_all
  ultimately show ?thesis using w(1) by blast
qed

lemma fenceStep_nonfence: "match convertCodeBlockRegex l = None \<Longrightarrow> fenceStep F l = None"
  by (simp add: fenceStep_def)

lemma fenceStep_tildes:
  "fenceStep \<lparr>inFencedCodeBlock = True, fenceChar = ''`'', fenceLength = 3\<rparr> ''~~~'' = None"
  by code_simp

lemma convertLines_cm_in_block:
  "inFencedCodeBlock F \<Longrightarrow> \<forall>l \<in> set rest. fenceStep F l = None \<Longrightarrow>
   convertLines_cm F stack rest out = out @ rest"
  by (induction rest arbitrary: out) simp_all

text \<open>
  Claim C5, as amended, for \<open>convertClaudeMdToMarkdown\<close>.  When a line opens a code
  block with three backticks and every later line is either the line \<open>~~~\<close> or no
  fence line, the block stays open to the end of the document: the opening line and all
  later lines are pushed as they are.  And a line closes an open block only if it is
  white space, then a run of the opening fence's character at least as long as the
  opening run, then white space.
\<close>

theorem C5_mismatched_fence_keeps_block_open:
  "(\<not> inFencedCodeBlock F \<and> match convertCodeBlockRegex opening = Some m \<and> capOr m 2 = ''```'' \<and>
    (\<forall>l \<in> set rest. l = ''~~~'' \<or> match convertCodeBlockRegex l = None)
      \<longrightarrow> convertLines_cm F stack (opening # rest) output = output @ opening # rest) \<and>
   (inFencedCodeBlock F \<and> fenceChar F = [c] \<and> fenceStep F l = Some F'
      \<longrightarrow> \<not> inFencedCodeBlock F' \<and>
          (\<exists>a k b. l = a @ replicate k c @ b \<and> fenceLength F \<le> k \<and>
             (\<forall>x \<in> set a. isSpace x) \<and> (\<forall>x \<in> set b. isSpace x)))"
proof (intro conjI impI)
  assume a: "\<not> inFencedCodeBlock F \<and> match convertCodeBlockRegex opening = Some m \<and> capOr m 2 = ''```'' \<and>
    (\<forall>l \<in> set rest. l = ''~~~'' \<or> match convertCodeBlockRegex l = None)"
  then have a1: "\<not> inFencedCodeBlock F" and a2: "match convertCodeBlockRegex opening = Some m"
    and a3: "capOr m 2 = ''```''"
    and a4: "\<forall>l \<in> set rest. l = ''~~~'' \<or> match convertCodeBlockRegex l = None"
    by simp_all
  let ?F1 = "\<lparr>inFencedCodeBlock = True, fenceChar = ''`'', fenceLength = 3\<rparr>"
  have op: "fenceStep F opening = Some ?F1" by (simp add: fenceStep_def a1 a2 a3)
  have "\<forall>l \<in> set rest. fenceStep ?F1 l = None"
  proof
    fix l assume "l \<in> set rest"
    then have "l = ''~~~'' \<or> match convertCodeBlockRegex l = None" using a4 by (rule bspec[rotated])
    then show "fenceStep ?F1 l = None"
    proof
      assume "l = ''~~~''"
      then show ?thesis by (simp only: fenceStep_tildes)
    next
      assume "match convertCodeBlockRegex l = None"
      then show ?thesis by (rule fenceStep_nonfence)
    qed
  qed
  then have "convertLines_cm ?F1 stack rest (output @ [opening]) = (output @ [opening]) @ rest"
    by (intro convertLines_cm_in_block) simp_all
  then show "convertLines_cm F stack (opening # rest) output = output @ opening # rest"
    by (simp add: op)
next
  assume b: "inFencedCodeBlock F \<and> fenceChar F = [c] \<and> fenceStep F l = Some F'"
  then have b1: "inFencedCodeBlock F" and b2: "fenceChar F = [c]" and b3: "fenceStep F l = Some F'"
    by simp_all
  have cl: "match (closingFenceRegex [c] (fenceLength F)) l \<noteq> None \<and> F' = F\<lparr>inFencedCodeBlock := False\<rparr>"
  proof (cases "match convertCodeBlockRegex l")
    case None
    then show ?thesis using b3 by (simp add: fenceStep_def)
  next
    case (Some fm)
    show ?thesis
    proof (cases "match (closingFenceRegex [c] (fenceLength F)) l")
      case None
      then show ?thesis using b3 b1 b2 Some by (simp add: fenceStep_def)
    next
      case (Some cm)
      then show ?thesis using b3 b1 b2 \<open>match convertCodeBlockRegex l = Some fm\<close>
        by (simp add: fenceStep_def)
    qed
  qed
  show "\<not> inFencedCodeBlock F'" using cl by simp
  show "\<exists>a k b. l = a @ replicate k c @ b \<and> fenceLength F \<le> k \<and>
             (\<forall>x \<in> set a. isSpace x) \<and> (\<forall>x \<in> set b. isSpace x)"
    using cl by (intro closingFence_lang) simp
qed

text \<open>
  The theorem at the lines \<open>```\<close>, \<open><a>\<close>, \<open>~~~\<close>, \<open><b>\<close>, and at the line \<open>````\<close> that closes
  a block opened with three backticks.
\<close>

theorem C5_mismatched_fence_keeps_block_open_witness:
  "convertLines_cm \<lparr>inFencedCodeBlock = False, fenceChar = [], fenceLength = 0\<rparr> []
     [''```'', ''<a>'', ''~~~'', ''<b>''] [] = [''```'', ''<a>'', ''~~~'', ''<b>''] \<and>
   (\<exists>a k b. ''````'' = a @ replicate k CHR ''`'' @ b \<and> 3 \<le> k \<and>
      (\<forall>x \<in> set a. isSpace x) \<and> (\<forall>x \<in> set b. isSpace x))"
proof -
  let ?F = "\<lparr>inFencedCodeBlock = False, fenceChar = [], fenceLength = 0\<rparr>"
  let ?F1 = "\<lparr>inFencedCodeBlock = True, fenceChar = ''`'', fenceLength = 3\<rparr>"
  obtain m where m: "match convertCodeBlockRegex ''```'' = Some m" "capOr m 2 = ''```''"
  proof -
    have "match convertCodeBlockRegex ''```'' =
       Some \<lparr>m_index = 0, m_text = ''```'', m_caps = [(3, []), (2, ''```''), (1, [])]\<rparr>" by code_simp
    moreover have "capOr \<lparr>m_index = 0, m_text = ''```'', m_caps = [(3, []), (2, ''```''), (1, [])]\<rparr> 2 = ''```''"
      by code_simp
    ultimately show ?thesis using that by blast
  qed
  have r: "\<forall>l \<in> set [''<a>'', ''~~~'', ''<b>'']. l = ''~~~'' \<or> match convertCodeBlockRegex l = None"
    by code_simp
  have f: "\<not> inFencedCodeBlock ?F" by simp
  have one: "convertLines_cm ?F [] [''```'', ''<a>'', ''~~~'', ''<b>''] [] = [''```'', ''<a>'', ''~~~'', ''<b>'']"
    using C5_mismatched_fence_keeps_block_open[of ?F "''```''" m "[''<a>'', ''~~~'', ''<b>'']" "[]" "[]"] f m r
    by simp
  have s: "fenceStep ?F1 ''````'' = Some (?F1\<lparr>inFencedCodeBlock := False\<rparr>)" by code_simp
  have two: "\<exists>a k b. ''````'' = a @ replicate k CHR ''`'' @ b \<and> 3 \<le> k \<and>
      (\<forall>x \<in> set a. isSpace x) \<and> (\<forall>x \<in> set b. isSpace x)"
    using C5_mismatched_fence_keeps_block_open[where F = ?F1 and c = "CHR ''`''" and l = "''````''"
        and F' = "?F1\<lparr>inFencedCodeBlock := False\<rparr>"] s
    by simp
  show ?thesis using one two by (rule conjI)
qed

text \<open>
  The claim as stated fails for the extractor and the transformer of the file with
  \<open>parseDocumentText\<close>, which toggle the flag on every fence line: for the lines \<open>```\<close>,
  \<open>~~~\<close>, \<open><a>\<close> the line of tildes closes the block, the tag \<open>a\<close> is recorded and becomes
  a header.  \<open>convertClaudeMdToMarkdown\<close> passes the three lines through.
\<close>

theorem C5_tildes_close_block_in_toggling_variant:
  "map name (xmlTags (parseDocumentText ''```\<newline>~~~\<newline><a>'')) = [''a''] \<and>
   convertToMarkdown ''```\<newline>~~~\<newline><a>'' = Inr ''```\<newline>~~~\<newline>## a\<newline>'' \<and>
   convertClaudeMdToMarkdown ''```\<newline>~~~\<newline><a>'' = ''```\<newline>~~~\<newline><a>''"
  by code_simp

section \<open>Lines with a closing tag\<close>

text \<open>
  Claim C6, as amended: in \<open>convertToMarkdown\<close> of the file with \<open>parseDocumentText\<close>,
  a line on which the extractor recorded a closing tag, and which the transformer's own
  fence tracking places outside code blocks, is replaced by a single empty line: the
  output is the output for the lines before it, one empty line, and the output for the
  lines after it.
\<close>

theorem C6_closing_line_becomes_empty_line:
  assumes t: "t \<in> set (xmlTags (parseDocumentText text'))" "isClosing t" "line t = i"
    and out: "\<not> fenceFlag convertCodeBlockRegex False (take i (splitLines text'))"
             "match convertCodeBlockRegex (splitLines text' ! i) = None"
  shows "\<exists>before after.
      convertLines (resolveDepths (parseDocumentText text')) 0 False (take i (splitLines text')) [] = Inr before \<and>
      convertLines (resolveDepths (parseDocumentText text')) (Suc i) False (drop (Suc i) (splitLines text')) [] = Inr after \<and>
      convertLines (resolveDepths (parseDocumentText text')) 0 False (splitLines text') [] = Inr (before @ [[]] @ after)"
proof -
  let ?S = "resolveDepths (parseDocumentText text')"
  let ?ls = "splitLines text'"
  have inv: "depthInv ?S" by (rule depthInv_resolve)
  from parse_tag_scanned[OF t(1)] t(3)
  have sc: "(i, ?ls ! i) \<in> set (scannedLines 0 False ?ls)" "t \<in> set (lineTags i (?ls ! i))" by auto
  then have i: "i < length ?ls" by (simp add: scannedLines_iff)
  have "\<not> isOpening t" using sc(2) t(2) by (rule lineTags_closing)
  then have "i \<in> tagEndLines ?S"
    using t by (auto simp add: resolveDepths_def tagEndLines_fold)
  then have line: "convertLine ?S i False (?ls ! i) = Inr ([[]], False)"
    using out(2) by (simp add: convertLine_def)
  obtain before where before: "convertLines ?S 0 False (take i ?ls) [] = Inr before"
    using convertLines_total[OF inv] by blast
  obtain after where after: "convertLines ?S (Suc i) False (drop (Suc i) ?ls) [] = Inr after"
    using convertLines_total[OF inv] by blast
  have split: "?ls = take i ?ls @ (?ls ! i) # drop (Suc i) ?ls"
    using i by (simp add: id_take_nth_drop)
  have len: "length (take i ?ls) = i" using i by simp
  have "convertLines ?S 0 False (take i ?ls @ (?ls ! i) # drop (Suc i) ?ls) [] = Inr (before @ [[]] @ after)"
    apply (subst convertLines_append)
    using before after line out(1) len
    apply (simp add: convertLines_acc[of _ _ _ _ "[[]]"])
    done
  then have "convertLines ?S 0 False ?ls [] = Inr (before @ [[]] @ after)"
    using split by simp
  then show ?thesis using before after by blast
qed


text \<open>The theorem at the closing tag of line 2 of the specification's example.\<close>

theorem C6_closing_line_becomes_empty_line_witness:
  "\<exists>before after.
      convertLines (resolveDepths (parseDocumentText ''<task>\<newline>Do the thing.\<newline></task>'')) 0 False
         (take 2 (splitLines ''<task>\<newline>Do the thing.\<newline></task>'')) [] = Inr before \<and>
      convertLines (resolveDepths (parseDocumentText ''<task>\<newline>Do the thing.\<newline></task>'')) (Suc 2) False
         (drop (Suc 2) (splitLines ''<task>\<newline>Do the thing.\<newline></task>'')) [] = Inr after \<and>
      convertLines (resolveDepths (parseDocumentText ''<task>\<newline>Do the thing.\<newline></task>'')) 0 False
         (splitLines ''<task>\<newline>Do the thing.\<newline></task>'') [] = Inr (before @ [[]] @ after)"
proof -
  let ?text = "''<task>\<newline>Do the thing.\<newline></task>''"
  let ?t = "\<lparr>name = ''task'', line = 2, indent = 0, isOpening = False, isClosing = True,
             isSelfClosing = False, attributes = [], startIndex = 0, endIndex = 7\<rparr>"
  have h1: "?t \<in> set (xmlTags (parseDocumentText ?text))" by code_simp
  have h2: "isClosing ?t" by simp
  have h3: "line ?t = 2" by simp
  have h4: "\<not> fenceFlag convertCodeBlockRegex False (take 2 (splitLines ?text))" by code_simp
  have h5: "match convertCodeBlockRegex (splitLines ?text ! 2) = None" by code_simp
  show ?thesis by (rule C6_closing_line_becomes_empty_line[OF h1 h2 h3 h4 h5])
qed

text \<open>
  The claim as stated fails for \<open>convertToMarkdown\<close> of \<open>src/extension.ts\<close>, which pushes
  nothing for a line with a closing tag: for the two lines \<open><a>\<close> and \<open></a>\<close> the closing
  tag is recorded on line 1 and the output is the single line \<open>## a\<close>.  The other file
  gives the header, its blank line and the empty line for line 1.
\<close>

theorem C6_closing_line_dropped_in_extension_ts:
  "map (\<lambda>t. (name t, line t, isClosing t))
     (xmlTags (parseDocument_ext \<lparr>getText = ''<a>\<newline></a>'', lineTexts = [''<a>'', ''</a>'']\<rparr>))
     = [(''a'', 0, False), (''a'', 1, True)] \<and>
   convertToMarkdown_ext \<lparr>getText = ''<a>\<newline></a>'', lineTexts = [''<a>'', ''</a>'']\<rparr> = Inr ''## a'' \<and>
   convertToMarkdown ''<a>\<newline></a>'' = Inr ''## a\<newline>\<newline>''"
  by code_simp

section \<open>Several opening tags on one line\<close>





section \<open>Closing tags without an opening tag\<close>

text \<open>
  A line that is exactly \<open></nm>\<close>, for a tag name \<open>nm\<close>, yields one closing tag and no
  other tag.
\<close>

lemma nameChar_not_special:
  "isNameChar x \<Longrightarrow> x \<noteq> CHR ''<'' \<and> x \<noteq> CHR ''>'' \<and> x \<noteq> CHR ''`'' \<and> x \<noteq> CHR ''/''"
  by (auto simp add: isNameChar_def code_def)

lemma nameStart_nameChar: "isNameStart x \<Longrightarrow> isNameChar x"
  by (auto simp add: isNameStart_def isNameChar_def)

lemma star_then:
  assumes "\<forall>x \<in> set cs. p x" "\<not> p d" "\<forall>n' x t'. p x \<longrightarrow> f (n', x # t', caps) = []"
  shows "concat (map f (ms (Star (Cls p)) (n, cs @ d # t, caps))) = f (n + length cs, d # t, caps)"
  using assms(1)
proof (induction cs arbitrary: n)
  case Nil
  show ?case using assms(2) by (subst ms.simps(5)) simp
next
  case (Cons x cs)
  have "ms (Star (Cls p)) (n, (x # cs) @ d # t, caps) =
        ms (Star (Cls p)) (Suc n, cs @ d # t, caps) @ [(n, (x # cs) @ d # t, caps)]"
    using Cons.prems by (subst ms.simps(5)) simp
  then show ?case using Cons assms(3) by simp
qed

lemma needs_Cls: "needs (Seq (Cls p) r) p"
  by (auto simp add: needs_def split: list.splits)

lemma scan_needs:
  "needs r p \<Longrightarrow> \<forall>x \<in> set s. \<not> p x \<Longrightarrow> scan r n s = []"
  by (induction s arbitrary: n) (simp_all add: needs_def execAt_def)

lemma needs_multiTick: "needs multiTickRe (isChar CHR ''`'')"
  by (auto simp add: needs_def multiTickRe_def RepMin_def numeral_2_eq_2 split: list.splits)

lemma needs_singleTick: "needs singleTickRe (isChar CHR ''`'')"
  unfolding singleTickRe_def by (rule needs_Cls)

lemma maskCodeContent_plain:
  assumes "CHR ''`'' \<notin> set l"
  shows "maskCodeContent l = (l, [])"
proof -
  have no: "\<forall>x \<in> set l. \<not> isChar CHR ''`'' x" using assms by (auto simp add: isChar_def)
  have "scan multiTickRe 0 l = []" "scan singleTickRe 0 l = []"
    using scan_needs[OF needs_multiTick no] scan_needs[OF needs_singleTick no] by simp_all
  then show ?thesis by (simp add: maskCodeContent_def maskPass_def)
qed

lemma closing_exec:
  assumes "isNameStart c" "\<forall>x \<in> set cs. isNameChar x"
  shows "ms xmlClosingTagRegex (0, ''</'' @ c # cs @ ''>'', []) = [(length cs + 4, [], [(1, c # cs)])]"
proof -
  let ?f = "\<lambda>st. ms (Cls (isChar CHR ''>''))
     (case st of (n', s', cs') \<Rightarrow> (n', s', (1, take (n' - 2) (c # cs @ ''>'')) # cs'))"
  have f: "\<forall>n' x t'. isNameChar x \<longrightarrow> ?f (n', x # t', []) = []"
    using nameChar_not_special by (auto simp add: isChar_def)
  have "ms xmlClosingTagRegex (0, ''</'' @ c # cs @ ''>'', []) =
        concat (map ?f (ms (Star (Cls isNameChar)) (3, cs @ CHR ''>'' # [], [])))"
    using assms(1) by (simp add: xmlClosingTagRegex_def nameRe_def isChar_def map_concat comp_def eval_nat_numeral)
  also have "\<dots> = ?f (3 + length cs, CHR ''>'' # [], [])"
    using assms(2) nameChar_not_special f by (intro star_then) auto
  also have "\<dots> = [(length cs + 4, [], [(1, c # cs)])]"
    by (simp add: isChar_def)
  finally show ?thesis .
qed

lemma closing_scan:
  assumes "isNameStart c" "\<forall>x \<in> set cs. isNameChar x"
  shows "scan xmlClosingTagRegex 0 (''</'' @ c # cs @ ''>'') =
           [\<lparr>m_index = 0, m_text = ''</'' @ c # cs @ ''>'', m_caps = [(1, c # cs)]\<rparr>]"
proof -
  have e: "execAt xmlClosingTagRegex n [] = None" for n
    by (simp add: execAt_def xmlClosingTagRegex_def)
  have "execAt xmlClosingTagRegex 0 (''</'' @ c # cs @ ''>'') =
          Some \<lparr>m_index = 0, m_text = ''</'' @ c # cs @ ''>'', m_caps = [(1, c # cs)]\<rparr>"
    using closing_exec[OF assms] by (simp add: execAt_def)
  then show ?thesis
    using e by simp
qed

lemma other_scans:
  assumes "isNameStart c" "\<forall>x \<in> set cs. isNameChar x"
  shows "scan xmlSelfClosingRegex 0 (''</'' @ c # cs @ ''>'') = []"
    and "scan xmlOpeningTagRegex 0 (''</'' @ c # cs @ ''>'') = []"
proof -
  have no: "\<forall>x \<in> set (CHR ''/'' # c # cs @ ''>''). \<not> isChar CHR ''<'' x"
    using assms nameChar_not_special nameStart_nameChar by (auto simp add: isChar_def)
  have s: "needs xmlSelfClosingRegex (isChar CHR ''<'')" "needs xmlOpeningTagRegex (isChar CHR ''<'')"
    unfolding xmlSelfClosingRegex_def xmlOpeningTagRegex_def by (rule needs_Cls)+
  have ns: "\<not> isNameStart CHR ''/''" by (simp add: isNameStart_def code_def)
  have e: "execAt xmlSelfClosingRegex 0 (''</'' @ c # cs @ ''>'') = None"
     "execAt xmlOpeningTagRegex 0 (''</'' @ c # cs @ ''>'') = None"
    using ns by (simp_all add: execAt_def xmlSelfClosingRegex_def xmlOpeningTagRegex_def nameRe_def isChar_def)
  show "scan xmlSelfClosingRegex 0 (''</'' @ c # cs @ ''>'') = []"
    using e(1) scan_needs[OF s(1) no] by simp
  show "scan xmlOpeningTagRegex 0 (''</'' @ c # cs @ ''>'') = []"
    using e(2) scan_needs[OF s(2) no] by simp
qed

lemma lineTags_closing_line:
  assumes "isNameStart c" "\<forall>x \<in> set cs. isNameChar x"
  shows "lineTags i (''</'' @ c # cs @ ''>'') =
     [\<lparr>name = c # cs, line = i, indent = 0, isOpening = False, isClosing = True,
       isSelfClosing = False, attributes = [], startIndex = 0, endIndex = length cs + 4\<rparr>]"
proof -
  have nb: "CHR ''`'' \<notin> set (''</'' @ c # cs @ ''>'')"
    using assms nameChar_not_special nameStart_nameChar by auto
  have ts: "trimStart (''</'' @ c # cs @ ''>'') = ''</'' @ c # cs @ ''>''"
    by (simp add: trimStart_def isSpace_def code_def)
  show ?thesis
    using maskCodeContent_plain[OF nb] other_scans[OF assms] closing_scan[OF assms] ts
    by (simp add: lineTags_def Let_def replaceAll_def closingTag_def capOr_def cap_def)
qed

text \<open>The stacks of the two loops over the tags, and the unmatched opening tags.\<close>

lemma takeNearest_None: "takeNearest nm st = None \<longleftrightarrow> nm \<notin> fst ` set st"
  by (induction st) auto


lemma stack_reset: "set (tagStack (resetAtRules hr t S)) \<subseteq> set (tagStack S)"
  using resetAtRules_cases[of hr t S] by auto

lemma handleTag_unmatched:
  "\<not> isOpening t \<Longrightarrow> isClosing t \<Longrightarrow> name t \<notin> fst ` set (tagStack S) \<Longrightarrow>
     handleTag t S = S\<lparr>tagEndLines := insert (line t) (tagEndLines S)\<rparr>"
  using takeNearest_None[of "name t" "tagStack S"] by (simp add: handleTag_def)

lemma tagFoldStep_unmatched:
  "\<not> isOpening t \<Longrightarrow> isClosing t \<Longrightarrow> name t \<notin> fst ` set st \<Longrightarrow>
     tagFoldStep (rs, st) t = (rs, st)"
  using takeNearest_None[of "name t" st] by (simp add: tagFoldStep_def)

lemma takeNearest_remove1:
  "map fst (case takeNearest nm st of None \<Rightarrow> st | Some (l, st') \<Rightarrow> st') = remove1 nm (map fst st)"
  by (induction st) (auto split: option.splits)

lemma tagFoldStep_names:
  "map fst (snd (tagFoldStep (rs, st) t)) = openStep (map fst st) t"
  using takeNearest_remove1[where nm = "name t" and st = st]
  by (auto simp add: tagFoldStep_def openStep_def split: option.splits)

lemma foldl_tagFoldStep_names:
  "map fst (snd (foldl tagFoldStep (rs, st) ts)) = foldl openStep (map fst st) ts"
proof (induction ts arbitrary: rs st)
  case Nil
  show ?case by simp
next
  case (Cons t ts)
  obtain rs' st' where step: "tagFoldStep (rs, st) t = (rs', st')" by (cases "tagFoldStep (rs, st) t")
  have "map fst st' = openStep (map fst st) t" using tagFoldStep_names[of rs st t] by (simp add: step)
  then show ?case using Cons.IH[of rs' st'] by (simp add: step)
qed

lemma handleTag_names:
  "map fst (tagStack (handleTag t S)) = openStep (map fst (tagStack S)) t"
  using takeNearest_remove1[where nm = "name t" and st = "tagStack S"]
  by (auto simp add: handleTag_def openStep_def split: option.splits)

lemma openStep_append:
  "\<exists>X'. openStep (R @ X) t = openStep R t @ X'"
  by (simp add: openStep_def remove1_append remove1_idem)

lemma resolver_names_prefix:
  "\<exists>X. foldl openStep (map fst (tagStack S) @ X0) ts =
         map fst (tagStack (foldl (tagStep hr) S ts)) @ X"
proof (induction ts arbitrary: S X0)
  case Nil
  show ?case by simp
next
  case (Cons t ts)
  let ?R = "resetAtRules hr t S"
  obtain X1 where x1: "map fst (tagStack S) @ X0 = map fst (tagStack ?R) @ X1"
    using resetAtRules_cases[of hr t S] by (elim disjE) simp_all
  obtain X2 where x2: "openStep (map fst (tagStack ?R) @ X1) t = openStep (map fst (tagStack ?R)) t @ X2"
    using openStep_append[of "map fst (tagStack ?R)" X1 t] by blast
  have "openStep (map fst (tagStack S) @ X0) t = map fst (tagStack (tagStep hr S t)) @ X2"
    unfolding x1 x2 by (simp add: tagStep_def handleTag_names)
  then show ?case using Cons.IH[of "tagStep hr S t" X2] by simp
qed

lemma resolver_names_subset:
  "set (map fst (tagStack (foldl (tagStep hr) initialDepthState ts))) \<subseteq> set (unmatchedOpenings ts)"
proof -
  from resolver_names_prefix[of initialDepthState "[]" ts hr] obtain X where
    "unmatchedOpenings ts = map fst (tagStack (foldl (tagStep hr) initialDepthState ts)) @ X"
    by (auto simp add: unmatchedOpenings_def initialDepthState_def)
  then show ?thesis by simp
qed

lemma closing_recorded:
  assumes "(i, l) \<in> set (scannedLines 0 False (splitLines text'))"
    and "m \<in> set (scan xmlClosingTagRegex 0 (fst (maskCodeContent l)))"
  shows "closingTag i (length l - length (trimStart l)) m \<in> set (xmlTags (parseDocumentText text'))"
proof -
  from parse_tags_split[OF assms(1)] obtain pre post where
    "xmlTags (parseDocumentText text') = pre @ lineTags i l @ post" by blast
  moreover have "closingTag i (length l - length (trimStart l)) m \<in> set (closeTags i l)"
    using assms(2) by (simp add: closeTags_def)
  ultimately show ?thesis by (simp add: lineTags_split)
qed

text \<open>
  Claim C7, as amended.  Let \<open>m\<close> be a match of the closing-tag expression on a line \<open>i\<close>
  that the extractor scans (outside code blocks, no fence line, no horizontal rule), and
  \<open>t\<close> the closing tag that the extractor builds from it.  Then \<open>t\<close> is in the extractor's
  tag list, whatever precedes it.  If no opening tag of its name is unmatched among the
  tags before \<open>t\<close> in that list, then the iteration of the resolver for \<open>t\<close> adds line \<open>i\<close>
  to \<open>tagEndLines\<close> and leaves the depth counter and the stack as they are, unless a
  horizontal rule lies above line \<open>i\<close> and below the line of the innermost open tag (or no
  tag is open): then the check made before every tag sets the counter to 0 and empties
  the stack.  The folding loop is in the same state after \<open>t\<close> as before it, so no range is
  added for it.  The depth counter is not negative after any number of tags.
\<close>

theorem C7_unmatched_closing_tag:
  fixes text' :: string and i :: nat and m :: jsmatch
  defines "lines \<equiv> splitLines text'"
  defines "tags \<equiv> xmlTags (parseDocumentText text')"
  defines "hr \<equiv> setOfArray (horizontalRules (parseDocumentText text'))"
  defines "t \<equiv> closingTag i (length (lines ! i) - length (trimStart (lines ! i))) m"
  assumes i: "i < length lines"
    and ext: "\<not> fenceFlag codeBlockRegex False (take i lines)"
             "match codeBlockRegex (lines ! i) = None" "\<not> test horizontalRuleRegex (lines ! i)"
    and m: "m \<in> set (scan xmlClosingTagRegex 0 (fst (maskCodeContent (lines ! i))))"
  shows "t \<in> set tags \<and>
     (\<forall>pre post S. tags = pre @ t # post \<and> name t \<notin> set (unmatchedOpenings pre) \<and>
          S = foldl (tagStep hr) initialDepthState pre \<longrightarrow>
        ((\<forall>h \<in> set hr. \<not> (h < i \<and> (tagStack S = [] \<or> snd (hd (tagStack S)) < h))) \<longrightarrow>
           tagStep hr S t = S\<lparr>tagEndLines := insert i (tagEndLines S)\<rparr>) \<and>
        ((\<exists>h \<in> set hr. h < i \<and> (tagStack S = [] \<or> snd (hd (tagStack S)) < h)) \<longrightarrow>
           tagStep hr S t = S\<lparr>currentDepth := 0, tagStack := [], tagEndLines := insert i (tagEndLines S)\<rparr>) \<and>
        foldl tagFoldStep ([], []) (pre @ [t]) = foldl tagFoldStep ([], []) pre) \<and>
     (\<forall>k. 0 \<le> currentDepth (foldl (tagStep hr) initialDepthState (take k tags)))"
proof -
  have sc: "(i, lines ! i) \<in> set (scannedLines 0 False (splitLines text'))"
    using i ext by (simp add: scannedLines_iff lines_def)
  have first: "t \<in> set tags"
    unfolding t_def tags_def using sc m by (rule closing_recorded)
  have tf: "\<not> isOpening t" "isClosing t" "line t = i" by (simp_all add: t_def)
  have second: "
        ((\<forall>h \<in> set hr. \<not> (h < i \<and> (tagStack S = [] \<or> snd (hd (tagStack S)) < h))) \<longrightarrow>
           tagStep hr S t = S\<lparr>tagEndLines := insert i (tagEndLines S)\<rparr>) \<and>
        ((\<exists>h \<in> set hr. h < i \<and> (tagStack S = [] \<or> snd (hd (tagStack S)) < h)) \<longrightarrow>
           tagStep hr S t = S\<lparr>currentDepth := 0, tagStack := [], tagEndLines := insert i (tagEndLines S)\<rparr>) \<and>
        foldl tagFoldStep ([], []) (pre @ [t]) = foldl tagFoldStep ([], []) pre"
    if hyp: "tags = pre @ t # post \<and> name t \<notin> set (unmatchedOpenings pre) \<and>
          S = foldl (tagStep hr) initialDepthState pre" for pre post S
  proof -
    have un: "name t \<notin> set (unmatchedOpenings pre)" and S: "S = foldl (tagStep hr) initialDepthState pre"
      using hyp by simp_all
    let ?R = "resetAtRules hr t S"
    have "name t \<notin> set (map fst (tagStack S))"
      using un resolver_names_subset[of hr pre] unfolding S by blast
    then have "name t \<notin> fst ` set (tagStack ?R)"
      using stack_reset[of hr t S] by auto
    from handleTag_unmatched[OF tf(1,2) this]
    have a: "tagStep hr S t = ?R\<lparr>tagEndLines := insert i (tagEndLines S)\<rparr>"
      by (simp add: tagStep_def tf)
    have b: "?R = S" if "\<forall>h \<in> set hr. \<not> (h < i \<and> (tagStack S = [] \<or> snd (hd (tagStack S)) < h))"
      using foldl_resetAtRule_none[of hr t "tagStack S" "currentDepth S"] that
      by (simp add: resetAtRules_def tf)
    have c: "?R = S\<lparr>currentDepth := 0, tagStack := []\<rparr>"
      if "\<exists>h \<in> set hr. h < i \<and> (tagStack S = [] \<or> snd (hd (tagStack S)) < h)"
      using foldl_resetAtRule_some[of hr t "tagStack S" "currentDepth S"] that
      by (simp add: resetAtRules_def tf)
    have "name t \<notin> set (map fst (snd (foldl tagFoldStep ([], []) pre)))"
      using un by (simp add: foldl_tagFoldStep_names unmatchedOpenings_def)
    then have "name t \<notin> fst ` set (snd (foldl tagFoldStep ([], []) pre))" by simp
    then have d: "foldl tagFoldStep ([], []) (pre @ [t]) = foldl tagFoldStep ([], []) pre"
      using tagFoldStep_unmatched[OF tf(1,2), of "snd (foldl tagFoldStep ([], []) pre)"
          "fst (foldl tagFoldStep ([], []) pre)"]
      by simp
    show ?thesis using a b c d by (intro conjI impI) simp_all
  qed
  have third: "0 \<le> currentDepth (foldl (tagStep hr) initialDepthState (take k tags))" for k
  proof -
    have "depthInv (foldl (tagStep hr) initialDepthState (take k tags))"
      by (rule depthInv_fold) (simp add: depthInv_def initialDepthState_def)
    then show ?thesis by (simp add: depthInv_def)
  qed
  show ?thesis
  proof (intro conjI allI impI)
    show "t \<in> set tags" by (rule first)
  next
    fix pre post S
    assume hyp: "tags = pre @ t # post \<and> name t \<notin> set (unmatchedOpenings pre) \<and>
          S = foldl (tagStep hr) initialDepthState pre"
    note s = second[OF hyp]
    from s have b: "(\<forall>h \<in> set hr. \<not> (h < i \<and> (tagStack S = [] \<or> snd (hd (tagStack S)) < h))) \<longrightarrow>
           tagStep hr S t = S\<lparr>tagEndLines := insert i (tagEndLines S)\<rparr>" by (elim conjE)
    from s have c: "(\<exists>h \<in> set hr. h < i \<and> (tagStack S = [] \<or> snd (hd (tagStack S)) < h)) \<longrightarrow>
           tagStep hr S t = S\<lparr>currentDepth := 0, tagStack := [], tagEndLines := insert i (tagEndLines S)\<rparr>"
      by (elim conjE)
    show "tagStep hr S t = S\<lparr>tagEndLines := insert i (tagEndLines S)\<rparr>"
      if "\<forall>h \<in> set hr. \<not> (h < i \<and> (tagStack S = [] \<or> snd (hd (tagStack S)) < h))"
      using b that by (rule mp)
    show "tagStep hr S t = S\<lparr>currentDepth := 0, tagStack := [], tagEndLines := insert i (tagEndLines S)\<rparr>"
      if "\<exists>h \<in> set hr. h < i \<and> (tagStack S = [] \<or> snd (hd (tagStack S)) < h)"
      using c that by (rule mp)
    show "foldl tagFoldStep ([], []) (pre @ [t]) = foldl tagFoldStep ([], []) pre"
      using s by (elim conjE)
  next
    fix k
    show "0 \<le> currentDepth (foldl (tagStep hr) initialDepthState (take k tags))" by (rule third)
  qed
qed

text \<open>
  The theorem at line 2 of the document \<open><foo>\<close>, \<open></foo>\<close>, \<open>  </foo> x\<close>: the second closing
  tag finds no open \<open>foo\<close>; the depth counter after 0, 1, 2 and 3 tags is 0, 1, 0, 0, and
  the only fold is that of the first two lines.
\<close>

theorem C7_unmatched_closing_tag_witness:
  "closingTag 2 (length (splitLines ''<foo>\<newline></foo>\<newline>  </foo> x'' ! 2) -
                 length (trimStart (splitLines ''<foo>\<newline></foo>\<newline>  </foo> x'' ! 2)))
       \<lparr>m_index = 2, m_text = ''</foo>'', m_caps = [(1, ''foo'')]\<rparr>
     \<in> set (xmlTags (parseDocumentText ''<foo>\<newline></foo>\<newline>  </foo> x'')) \<and>
   tagStep (setOfArray (horizontalRules (parseDocumentText ''<foo>\<newline></foo>\<newline>  </foo> x'')))
     (foldl (tagStep (setOfArray (horizontalRules (parseDocumentText ''<foo>\<newline></foo>\<newline>  </foo> x''))))
        initialDepthState (take 2 (xmlTags (parseDocumentText ''<foo>\<newline></foo>\<newline>  </foo> x''))))
     (closingTag 2 (length (splitLines ''<foo>\<newline></foo>\<newline>  </foo> x'' ! 2) -
                 length (trimStart (splitLines ''<foo>\<newline></foo>\<newline>  </foo> x'' ! 2)))
       \<lparr>m_index = 2, m_text = ''</foo>'', m_caps = [(1, ''foo'')]\<rparr>) =
   (foldl (tagStep (setOfArray (horizontalRules (parseDocumentText ''<foo>\<newline></foo>\<newline>  </foo> x''))))
        initialDepthState (take 2 (xmlTags (parseDocumentText ''<foo>\<newline></foo>\<newline>  </foo> x''))))
     \<lparr>tagEndLines := insert 2 (tagEndLines
        (foldl (tagStep (setOfArray (horizontalRules (parseDocumentText ''<foo>\<newline></foo>\<newline>  </foo> x''))))
        initialDepthState (take 2 (xmlTags (parseDocumentText ''<foo>\<newline></foo>\<newline>  </foo> x'')))))\<rparr> \<and>
   foldl tagFoldStep ([], []) (xmlTags (parseDocumentText ''<foo>\<newline></foo>\<newline>  </foo> x'')) =
     foldl tagFoldStep ([], []) (take 2 (xmlTags (parseDocumentText ''<foo>\<newline></foo>\<newline>  </foo> x''))) \<and>
   map (\<lambda>k. currentDepth
          (foldl (tagStep (setOfArray (horizontalRules (parseDocumentText ''<foo>\<newline></foo>\<newline>  </foo> x''))))
             initialDepthState (take k (xmlTags (parseDocumentText ''<foo>\<newline></foo>\<newline>  </foo> x'')))))
       [0, 1, 2, 3] = [0, 1, 0, 0] \<and>
   fst (foldl tagFoldStep ([], []) (xmlTags (parseDocumentText ''<foo>\<newline></foo>\<newline>  </foo> x''))) = [(0, 1)]"
proof -
  let ?T = "''<foo>\<newline></foo>\<newline>  </foo> x''"
  let ?m = "\<lparr>m_index = 2, m_text = ''</foo>'', m_caps = [(1, ''foo'')]\<rparr>"
  let ?t = "closingTag 2 (length (splitLines ?T ! 2) - length (trimStart (splitLines ?T ! 2))) ?m"
  let ?tags = "xmlTags (parseDocumentText ?T)"
  let ?hr = "setOfArray (horizontalRules (parseDocumentText ?T))"
  let ?S = "foldl (tagStep ?hr) initialDepthState (take 2 ?tags)"
  have h1: "2 < length (splitLines ?T)" by code_simp
  have h2: "\<not> fenceFlag codeBlockRegex False (take 2 (splitLines ?T))" by code_simp
  have h3: "match codeBlockRegex (splitLines ?T ! 2) = None" by code_simp
  have h4: "\<not> test horizontalRuleRegex (splitLines ?T ! 2)" by code_simp
  have h5: "?m \<in> set (scan xmlClosingTagRegex 0 (fst (maskCodeContent (splitLines ?T ! 2))))"
    by code_simp
  have p1: "?tags = take 2 ?tags @ ?t # []" by code_simp
  have p2: "name ?t \<notin> set (unmatchedOpenings (take 2 ?tags))" by code_simp
  have q: "\<forall>h \<in> set ?hr. \<not> (h < 2 \<and> (tagStack ?S = [] \<or> snd (hd (tagStack ?S)) < h))"
    by code_simp
  have e: "take 2 ?tags @ [?t] = ?tags" by code_simp
  have v: "map (\<lambda>k. currentDepth (foldl (tagStep ?hr) initialDepthState (take k ?tags))) [0, 1, 2, 3] =
             [0, 1, 0, 0]" by code_simp
  have w: "fst (foldl tagFoldStep ([], []) ?tags) = [(0, 1)]" by code_simp
  note th = C7_unmatched_closing_tag[OF h1 h2 h3 h4 h5]
  from th have a: "?t \<in> set ?tags" by (rule conjunct1)
  from th have "\<forall>pre post S. ?tags = pre @ ?t # post \<and> name ?t \<notin> set (unmatchedOpenings pre) \<and>
          S = foldl (tagStep ?hr) initialDepthState pre \<longrightarrow>
        ((\<forall>h \<in> set ?hr. \<not> (h < 2 \<and> (tagStack S = [] \<or> snd (hd (tagStack S)) < h))) \<longrightarrow>
           tagStep ?hr S ?t = S\<lparr>tagEndLines := insert 2 (tagEndLines S)\<rparr>) \<and>
        ((\<exists>h \<in> set ?hr. h < 2 \<and> (tagStack S = [] \<or> snd (hd (tagStack S)) < h)) \<longrightarrow>
           tagStep ?hr S ?t = S\<lparr>currentDepth := 0, tagStack := [], tagEndLines := insert 2 (tagEndLines S)\<rparr>) \<and>
        foldl tagFoldStep ([], []) (pre @ [?t]) = foldl tagFoldStep ([], []) pre"
    by (elim conjE)
  then have "?tags = take 2 ?tags @ ?t # [] \<and> name ?t \<notin> set (unmatchedOpenings (take 2 ?tags)) \<and>
          ?S = foldl (tagStep ?hr) initialDepthState (take 2 ?tags) \<longrightarrow>
        ((\<forall>h \<in> set ?hr. \<not> (h < 2 \<and> (tagStack ?S = [] \<or> snd (hd (tagStack ?S)) < h))) \<longrightarrow>
           tagStep ?hr ?S ?t = ?S\<lparr>tagEndLines := insert 2 (tagEndLines ?S)\<rparr>) \<and>
        ((\<exists>h \<in> set ?hr. h < 2 \<and> (tagStack ?S = [] \<or> snd (hd (tagStack ?S)) < h)) \<longrightarrow>
           tagStep ?hr ?S ?t = ?S\<lparr>currentDepth := 0, tagStack := [], tagEndLines := insert 2 (tagEndLines ?S)\<rparr>) \<and>
        foldl tagFoldStep ([], []) (take 2 ?tags @ [?t]) = foldl tagFoldStep ([], []) (take 2 ?tags)"
    by (elim allE)
  moreover have "?tags = take 2 ?tags @ ?t # [] \<and> name ?t \<notin> set (unmatchedOpenings (take 2 ?tags)) \<and>
          ?S = foldl (tagStep ?hr) initialDepthState (take 2 ?tags)"
    by (intro conjI p1 p2 refl)
  ultimately have r: "((\<forall>h \<in> set ?hr. \<not> (h < 2 \<and> (tagStack ?S = [] \<or> snd (hd (tagStack ?S)) < h))) \<longrightarrow>
           tagStep ?hr ?S ?t = ?S\<lparr>tagEndLines := insert 2 (tagEndLines ?S)\<rparr>) \<and>
        ((\<exists>h \<in> set ?hr. h < 2 \<and> (tagStack ?S = [] \<or> snd (hd (tagStack ?S)) < h)) \<longrightarrow>
           tagStep ?hr ?S ?t = ?S\<lparr>currentDepth := 0, tagStack := [], tagEndLines := insert 2 (tagEndLines ?S)\<rparr>) \<and>
        foldl tagFoldStep ([], []) (take 2 ?tags @ [?t]) = foldl tagFoldStep ([], []) (take 2 ?tags)"
    by (rule mp)
  from r have b: "(\<forall>h \<in> set ?hr. \<not> (h < 2 \<and> (tagStack ?S = [] \<or> snd (hd (tagStack ?S)) < h))) \<longrightarrow>
           tagStep ?hr ?S ?t = ?S\<lparr>tagEndLines := insert 2 (tagEndLines ?S)\<rparr>"
    by (rule conjunct1)
  from r have c: "foldl tagFoldStep ([], []) (take 2 ?tags @ [?t]) = foldl tagFoldStep ([], []) (take 2 ?tags)"
    by (elim conjE)
  from b q have b': "tagStep ?hr ?S ?t = ?S\<lparr>tagEndLines := insert 2 (tagEndLines ?S)\<rparr>" by (rule mp)
  from c have c': "foldl tagFoldStep ([], []) ?tags = foldl tagFoldStep ([], []) (take 2 ?tags)"
    by (simp only: e)
  show ?thesis by (intro conjI a b' c' v w)
qed

text \<open>
  The claim as stated fails when a horizontal rule precedes the closing tag: in \<open><a>\<close>,
  \<open>---\<close>, \<open></foo>\<close> no \<open>foo\<close> is open at \<open></foo>\<close>, and the iteration for \<open></foo>\<close> takes the
  depth counter from 1 to 0 and empties the stack.
\<close>

theorem C7_rule_before_unmatched_closing_tag:
  "map name (xmlTags (parseDocumentText ''<a>\<newline>---\<newline></foo>'')) = [''a'', ''foo''] \<and>
   map isClosing (xmlTags (parseDocumentText ''<a>\<newline>---\<newline></foo>'')) = [False, True] \<and>
   unmatchedOpenings (take 1 (xmlTags (parseDocumentText ''<a>\<newline>---\<newline></foo>''))) = [''a''] \<and>
   map (\<lambda>k. currentDepth
          (foldl (tagStep (setOfArray (horizontalRules (parseDocumentText ''<a>\<newline>---\<newline></foo>''))))
             initialDepthState (take k (xmlTags (parseDocumentText ''<a>\<newline>---\<newline></foo>'')))))
       [0, 1, 2] = [0, 1, 0] \<and>
   map (\<lambda>k. map fst (tagStack
          (foldl (tagStep (setOfArray (horizontalRules (parseDocumentText ''<a>\<newline>---\<newline></foo>''))))
             initialDepthState (take k (xmlTags (parseDocumentText ''<a>\<newline>---\<newline></foo>''))))))
       [0, 1, 2] = [[], [''a''], []]"
  by code_simp

text \<open>
  The tags before a tag are those of the tag list, which on one line has the closing tags
  before the opening tags: in \<open><foo></foo>\<close>, \<open></foo>\<close> the opening tag of the first line
  is still unmatched at the second line, and the two lines fold.
\<close>

lemma recorded_order_on_one_line:
  "map name (xmlTags (parseDocumentText ''<foo></foo>\<newline></foo>'')) = [''foo'', ''foo'', ''foo''] \<and>
   map isClosing (xmlTags (parseDocumentText ''<foo></foo>\<newline></foo>'')) = [True, False, True] \<and>
   map startIndex (xmlTags (parseDocumentText ''<foo></foo>\<newline></foo>'')) = [5, 0, 0] \<and>
   unmatchedOpenings (take 2 (xmlTags (parseDocumentText ''<foo></foo>\<newline></foo>''))) = [''foo''] \<and>
   fst (foldl tagFoldStep ([], []) (xmlTags (parseDocumentText ''<foo></foo>\<newline></foo>''))) = [(0, 1)]"
  by code_simp

section \<open>Header levels\<close>































lemma extractor_tag_kind:
  "t \<in> set (xmlTags (parseDocumentText text')) \<Longrightarrow> \<not> isClosing t \<Longrightarrow>
     isOpening t \<or> \<not> isClosing t \<and> isSelfClosing t"
proof -
  assume t: "t \<in> set (xmlTags (parseDocumentText text'))" and nc: "\<not> isClosing t"
  from parse_tag_scanned[OF t] have "t \<in> set (lineTags (line t) (splitLines text' ! line t))" by simp
  then show ?thesis using nc selfTags_flags closeTags_flags openTags_flags
    unfolding lineTags_split by (metis Un_iff set_append)
qed












section \<open>Masking and unmasking do not always round-trip\<close>

text \<open>
  Claim C2: for every line without the placeholder's control character \<open>\x00\<close>, unmasking
  the masked line with the stored spans gives the line back.  The code does not do this
  when a single-backtick span encloses a double-backtick span: the first pass stores the
  inner span and leaves its placeholder, the second pass stores the outer span with that
  placeholder inside, and \<open>unmaskCodeContent\<close> replaces only the outer placeholder (the
  text it inserts is not scanned again).  For the line \<open>` ``a`` `\<close> the result is
  \<open>` \x00CODE0\x00 `\<close>.
\<close>

theorem C2_unmask_mask_nested_span:
  "CHR 0x00 \<notin> set ''` ``a`` `'' \<and>
   maskCodeContent ''` ``a`` `'' = (placeholder 1, [''``a``'', ''` '' @ placeholder 0 @ '' `'']) \<and>
   unmaskCodeContent (fst (maskCodeContent ''` ``a`` `'')) (snd (maskCodeContent ''` ``a`` `''))
     = ''` '' @ placeholder 0 @ '' `'' \<and>
   unmaskCodeContent (fst (maskCodeContent ''` ``a`` `'')) (snd (maskCodeContent ''` ``a`` `''))
     \<noteq> ''` ``a`` `''"
  by code_simp

section \<open>The beautifier is not idempotent\<close>

text \<open>
  Claim C9: beautifying twice gives the same text as beautifying once.  \<open>beautifyDocument\<close>
  tests \<open>/^(\s*)(#{1,6}\s+.*)$/\<close> on the line as it is but pushes the trimmed line without
  indentation.  Inside an open tag the line \<open>"# "\<close> (a hash and a space) is a header for
  the first run, which pushes \<open>"#"\<close>; for the second run \<open>"#"\<close> is no header any more and is
  indented.  The beautifier of the file with \<open>convertClaudeMdToMarkdown\<close> tests the trimmed
  line and gives the same text both times.
\<close>

theorem C9_beautify_twice_differs:
  "beautifyText ''<a>\<newline># '' = ''<a>\<newline>#'' \<and>
   beautifyText (beautifyText ''<a>\<newline># '') = ''<a>\<newline>  #'' \<and>
   beautifyText (beautifyText ''<a>\<newline># '') \<noteq> beautifyText ''<a>\<newline># '' \<and>
   beautifyText_cm (beautifyText_cm ''<a>\<newline># '') = beautifyText_cm ''<a>\<newline># ''"
  by code_simp

end
